theory Spec2Isabelle
  imports Main "HOL-Library.Sublist" "HOL-Library.AList"
begin

section \<open>Regular expressions used by the attachment extension\<close>

text \<open>
  The source uses two regular-expression literals,
  \<^verbatim>\<open>/^image(\/(gif|png|jpe?g)|$)/\<close> and \<^verbatim>\<open>/\.(\w+)$/\<close>.
  The syntax tree below covers the constructs that occur in them: literal text,
  the class \<^verbatim>\<open>\w\<close> under \<^verbatim>\<open>+\<close>, sequencing, alternation, the optional
  \<^verbatim>\<open>?\<close>, the end assertion \<^verbatim>\<open>$\<close> (no multiline flag: end of input only) and
  numbered capture groups.
\<close>

datatype rx =
    Str string
  | WordPlus
  | Seq rx rx
  | Alt rx rx
  | Opt rx
  | Eol
  | Grp nat rx

type_synonym captures = "(nat \<times> string) list"

definition is_word_char :: "char \<Rightarrow> bool" where
  "is_word_char c =
     (let n = (of_char c :: nat)
      in (48 \<le> n \<and> n \<le> 57) \<or> (65 \<le> n \<and> n \<le> 90) \<or> n = 95 \<or> (97 \<le> n \<and> n \<le> 122))"

text \<open>
  All ways of consuming one or more word characters from the front of the input,
  longest first (the quantifier is greedy).
\<close>

fun word_runs :: "string \<Rightarrow> string list" where
  "word_runs [] = []"
| "word_runs (c # cs) = (if is_word_char c then word_runs cs @ [cs] else [])"

text \<open>
  A backtracking matcher: the results are the possible (captures, remaining input)
  pairs in the priority order of the JavaScript engine, so the head of the list is the
  match that \<^verbatim>\<open>String.prototype.match\<close> reports.
\<close>

fun rmatch :: "rx \<Rightarrow> captures \<times> string \<Rightarrow> (captures \<times> string) list" where
  "rmatch (Str w) (cap, s) = (if prefix w s then [(cap, drop (length w) s)] else [])"
| "rmatch WordPlus (cap, s) = map (\<lambda>r. (cap, r)) (word_runs s)"
| "rmatch (Seq a b) st = concat (map (rmatch b) (rmatch a st))"
| "rmatch (Alt a b) st = rmatch a st @ rmatch b st"
| "rmatch (Opt a) st = rmatch a st @ [st]"
| "rmatch Eol (cap, s) = (if s = [] then [(cap, s)] else [])"
| "rmatch (Grp n a) (cap, s) =
     map (\<lambda>(cap', r). ((n, take (length s - length r) s) # cap', r)) (rmatch a (cap, s))"

text \<open>A pattern that starts with \<^verbatim>\<open>^\<close>: only position 0 is tried.\<close>

definition match_anchored :: "rx \<Rightarrow> string \<Rightarrow> captures option" where
  "match_anchored r s = (case rmatch r ([], s) of [] \<Rightarrow> None | (cap, _) # _ \<Rightarrow> Some cap)"

text \<open>An unanchored pattern: start positions are tried from left to right.\<close>

fun match_search :: "rx \<Rightarrow> string \<Rightarrow> captures option" where
  "match_search r [] = match_anchored r []"
| "match_search r (c # cs) =
     (case match_anchored r (c # cs) of Some cap \<Rightarrow> Some cap | None \<Rightarrow> match_search r cs)"

section \<open>Helpers of the attachment extension\<close>

text \<open>\<^verbatim>\<open>const isPreviewable = /^image(\/(gif|png|jpe?g)|$)/\<close> (the leading \<^verbatim>\<open>^\<close> is
  the anchoring of \<open>match_anchored\<close>).\<close>

definition isPreviewable :: rx where
  "isPreviewable =
     Seq (Str ''image'')
       (Grp 1 (Alt
          (Seq (Str ''/'')
             (Grp 2 (Alt (Str ''gif'') (Alt (Str ''png'')
                (Seq (Str ''jp'') (Seq (Opt (Str ''e'')) (Str ''g'')))))))
          Eol))"

text \<open>
  \<^verbatim>\<open>return previewable || contentType?.match(isPreviewable) != null\<close>.
  \<open>Maybe<string>\<close> is modelled by \<open>string option\<close>; on \<open>None\<close> the optional chain yields
  \<open>undefined\<close>, and \<open>undefined != null\<close> is false.
\<close>

definition canPreview :: "bool \<Rightarrow> string option \<Rightarrow> bool" where
  "canPreview previewable contentType =
     (previewable \<or>
      (case contentType of None \<Rightarrow> False
       | Some ct \<Rightarrow> match_anchored isPreviewable ct \<noteq> None))"

text \<open>\<^verbatim>\<open>/\.(\w+)$/\<close>, used unanchored.\<close>

definition extensionPattern :: rx where
  "extensionPattern = Seq (Str ''.'') (Seq (Grp 1 WordPlus) Eol)"

text \<open>
  \<^verbatim>\<open>toLowerCase\<close> on the characters a capture of \<^verbatim>\<open>\w+\<close> can hold: the letters
  \<^verbatim>\<open>A\<close> to \<^verbatim>\<open>Z\<close> move to lower case, every other word character stays.
\<close>

definition lower_char :: "char \<Rightarrow> char" where
  "lower_char c =
     (let n = (of_char c :: nat) in if 65 \<le> n \<and> n \<le> 90 then char_of (n + 32) else c)"

definition toLowerCase :: "string \<Rightarrow> string" where
  "toLowerCase s = map lower_char s"

text \<open>
  \<^verbatim>\<open>if (!fileName) return "";
  return "attachment--" + fileName.match(/\.(\w+)$/)?.[1].toLowerCase();\<close>
  \<open>!fileName\<close> holds for \<open>undefined\<close> and for the empty string. When the pattern does
  not match, \<open>match\<close> returns \<open>null\<close>, the optional chain yields \<open>undefined\<close>, and
  string concatenation renders it as the text \<open>undefined\<close>. Group 1 is mandatory in the
  pattern, so a match always carries it (lemma \<open>extension_group_set\<close>); the last branch
  is never taken.
\<close>

definition toExtension :: "string option \<Rightarrow> string" where
  "toExtension fileName =
     (case fileName of
        None \<Rightarrow> []
      | Some f \<Rightarrow>
          if f = [] then []
          else ''attachment--'' @
            (case match_search extensionPattern f of
               None \<Rightarrow> ''undefined''
             | Some cap \<Rightarrow> (case map_of cap 1 of Some g \<Rightarrow> toLowerCase g | None \<Rightarrow> [])))"

text \<open>
  \<^verbatim>\<open>function toType(content, previewable)\<close>: preview first, then non-empty content,
  then the generic file class. \<open>content\<close> is falsy when it is \<open>undefined\<close> or empty.
\<close>

definition toType :: "string option \<Rightarrow> bool \<Rightarrow> string" where
  "toType content previewable =
     (if previewable then ''attachment--preview''
      else if content \<noteq> None \<and> content \<noteq> Some [] then ''attachment--content''
      else ''attachment--file'')"

text \<open>
  The previewable content types as the specification words them: a full match of
  \<^verbatim>\<open>^image/(gif|png|jpe?g)$\<close>, or exactly \<^verbatim>\<open>image\<close>. Used only to compare
  with \<open>canPreview\<close>.
\<close>

definition spec_previewable_type :: "string \<Rightarrow> bool" where
  "spec_previewable_type ct =
     (ct = ''image/gif'' \<or> ct = ''image/png'' \<or> ct = ''image/jpg'' \<or> ct = ''image/jpeg''
      \<or> ct = ''image'')"

section \<open>Attachment attributes and the document tree\<close>

text \<open>The exceptions the modelled code can raise.\<close>

datatype error = RangeError | TypeError | SyntaxError | GenericError

text \<open>Width and height hold a string (the default is the empty string) or, after the
  media has loaded, a number.\<close>

datatype dim = DimStr string | DimNum nat

text \<open>The attributes declared by \<^verbatim>\<open>addAttributes\<close>.\<close>

record attachment_attrs =
  attachmentId :: "string option"
  caption :: string
  progress :: int
  sgid :: string
  src :: string
  height :: dim
  width :: dim
  contentType :: string
  fileName :: string
  fileSize :: string
  content :: string
  url :: string
  previewable :: bool

text \<open>The declared defaults.\<close>

definition default_attrs :: attachment_attrs where
  "default_attrs =
     \<lparr>attachmentId = None, caption = [], progress = 100, sgid = [], src = [],
      height = DimStr [], width = DimStr [], contentType = [], fileName = [],
      fileSize = [], content = [], url = [], previewable = False\<rparr>"

datatype node_attrs = NoAttrs | FigureAttrs attachment_attrs

text \<open>
  A document node of the editing library: a text node, a leaf node (no content, size 1)
  or a node with a type name, attributes and child nodes.
\<close>

datatype pmnode =
    Text string
  | Leaf string
  | Node string node_attrs "pmnode list"

fun nodeSize :: "pmnode \<Rightarrow> nat" where
  "nodeSize (Text s) = length s"
| "nodeSize (Leaf t) = 1"
| "nodeSize (Node t a cs) = 2 + sum_list (map nodeSize cs)"

definition fragmentSize :: "pmnode list \<Rightarrow> nat" where
  "fragmentSize cs = sum_list (map nodeSize cs)"

fun nodeContent :: "pmnode \<Rightarrow> pmnode list" where
  "nodeContent (Node t a cs) = cs"
| "nodeContent n = []"

text \<open>\<^verbatim>\<open>node.type.name\<close>.\<close>

fun typeName :: "pmnode \<Rightarrow> string" where
  "typeName (Text s) = ''text''"
| "typeName (Leaf t) = t"
| "typeName (Node t a cs) = t"

fun isText :: "pmnode \<Rightarrow> bool" where
  "isText (Text s) = True"
| "isText n = False"

text \<open>
  \<^verbatim>\<open>Fragment.findIndex(pos, round = -1)\<close>: the index and start offset of the child
  that holds \<open>pos\<close>; a position on the boundary after child \<open>i\<close> belongs to index
  \<open>i + 1\<close>. \<open>findIndex_loop\<close> is the \<open>for\<close> loop, where reading a child beyond the
  last one raises.
\<close>

fun findIndex_loop :: "pmnode list \<Rightarrow> nat \<Rightarrow> nat \<Rightarrow> nat \<Rightarrow> error + nat \<times> nat" where
  "findIndex_loop [] i curPos pos = Inl RangeError"
| "findIndex_loop (c # cs) i curPos pos =
     (let e = curPos + nodeSize c
      in if e \<ge> pos then (if e = pos then Inr (i + 1, e) else Inr (i, curPos))
         else findIndex_loop cs (i + 1) e pos)"

definition findIndex :: "pmnode list \<Rightarrow> nat \<Rightarrow> error + nat \<times> nat" where
  "findIndex cs pos =
     (if pos = 0 then Inr (0, pos)
      else if pos = fragmentSize cs then Inr (length cs, pos)
      else if pos > fragmentSize cs then Inl RangeError
      else findIndex_loop cs 0 0 pos)"

text \<open>\<^verbatim>\<open>node.child(index)\<close> raises when the index is out of range.\<close>

definition child :: "pmnode \<Rightarrow> nat \<Rightarrow> error + pmnode" where
  "child n i = (if i < length (nodeContent n) then Inr (nodeContent n ! i) else Inl RangeError)"

text \<open>
  A resolved position: \<open>path\<close> holds, for each depth, the ancestor node, the index into
  it and the position just before the indexed child, as the triples of
  \<^verbatim>\<open>ResolvedPos.path\<close>.
\<close>

record resolved_pos =
  rpos :: nat
  path :: "(pmnode \<times> nat \<times> nat) list"

text \<open>
  One round of the loop of \<^verbatim>\<open>ResolvedPos.resolve\<close>: the path entry pushed for
  \<open>node\<close>, and the child to continue with together with its \<open>parentOffset\<close> and
  \<open>start\<close>, or \<open>None\<close> where the loop breaks (the position sits on a child boundary,
  or the child is a text node).
\<close>

definition resolve_step ::
  "pmnode \<Rightarrow> nat \<Rightarrow> nat \<Rightarrow> error + (pmnode \<times> nat \<times> nat) \<times> (pmnode \<times> nat \<times> nat) option" where
  "resolve_step node parentOff start =
     (case findIndex (nodeContent node) parentOff of
        Inl e \<Rightarrow> Inl e
      | Inr (index, offset) \<Rightarrow>
          let rem = parentOff - offset; entry = (node, index, start + offset)
          in if rem = 0 then Inr (entry, None)
             else (case child node index of
                     Inl e \<Rightarrow> Inl e
                   | Inr c \<Rightarrow>
                       if isText c then Inr (entry, None)
                       else Inr (entry, Some (c, rem - 1, start + offset + 1))))"

lemma size_child_lt:
  "child n i = Inr k \<Longrightarrow> size k < size n"
proof (cases n)
  case (Node t a cs)
  assume "child n i = Inr k"
  with Node have "i < length cs" "k = cs ! i"
    by (simp_all add: child_def split: if_splits)
  then have "k \<in> set cs" by simp
  then have "size k \<le> size_list size cs" by (rule size_list_estimation') simp
  with Node show ?thesis by simp
qed (simp_all add: child_def)

lemma resolve_step_child:
  assumes "resolve_step node parentOff start = Inr (entry, Some (c, po, st))"
  shows "size c < size node"
proof (cases "findIndex (nodeContent node) parentOff")
  case (Inl e)
  with assms show ?thesis by (simp add: resolve_step_def)
next
  case (Inr r)
  obtain index offset where r: "r = (index, offset)" by (cases r)
  show ?thesis
  proof (cases "child node index")
    case (Inl e)
    with assms Inr r show ?thesis
      by (simp add: resolve_step_def Let_def split: if_splits)
  next
    case c': (Inr c')
    with assms Inr r have "c' = c"
      by (simp add: resolve_step_def Let_def split: if_splits)
    with c' show ?thesis by (simp add: size_child_lt)
  qed
qed

function resolve_path ::
  "pmnode \<Rightarrow> nat \<Rightarrow> nat \<Rightarrow> error + (pmnode \<times> nat \<times> nat) list" where
  "resolve_path node parentOff start =
     (case resolve_step node parentOff start of
        Inl e \<Rightarrow> Inl e
      | Inr (entry, None) \<Rightarrow> Inr [entry]
      | Inr (entry, Some (c, po, st)) \<Rightarrow>
          (case resolve_path c po st of
             Inl e \<Rightarrow> Inl e
           | Inr p \<Rightarrow> Inr (entry # p)))"
  by pat_completeness auto
termination
proof (relation "measure (\<lambda>(n, po, st). size n)", goal_cases)
  case 1
  show ?case by simp
next
  case (2 node parentOff start b entry nxt x2 c ya po st)
  then have "resolve_step node parentOff start = Inr (entry, Some (c, po, st))"
    by metis
  then show ?case using resolve_step_child by simp
qed

declare resolve_path.simps [simp del]

text \<open>\<^verbatim>\<open>doc.resolve(pos)\<close>; positions are JavaScript numbers, so the argument is an
  integer and the range check is the one of the library.\<close>

definition resolve :: "pmnode \<Rightarrow> int \<Rightarrow> error + resolved_pos" where
  "resolve doc pos =
     (if \<not> (pos \<ge> 0 \<and> pos \<le> int (fragmentSize (nodeContent doc))) then Inl RangeError
      else (case resolve_path doc (nat pos) 0 of
              Inl e \<Rightarrow> Inl e
            | Inr p \<Rightarrow> Inr \<lparr>rpos = nat pos, path = p\<rparr>))"

text \<open>\<^verbatim>\<open>depth\<close>, \<^verbatim>\<open>node(depth)\<close> (which is \<open>undefined\<close> beyond the depth of the
  position), \<^verbatim>\<open>start(depth)\<close> and \<^verbatim>\<open>end()\<close> of a resolved position.\<close>

definition depth :: "resolved_pos \<Rightarrow> nat" where
  "depth rp = length (path rp) - 1"

definition node_at_depth :: "resolved_pos \<Rightarrow> nat \<Rightarrow> pmnode option" where
  "node_at_depth rp d = (if d < length (path rp) then Some (fst (path rp ! d)) else None)"

definition start_at :: "resolved_pos \<Rightarrow> nat \<Rightarrow> nat" where
  "start_at rp d = (if d = 0 then 0 else snd (snd (path rp ! (d - 1))) + 1)"

definition end_pos :: "resolved_pos \<Rightarrow> nat" where
  "end_pos rp =
     start_at rp (depth rp) +
       (case node_at_depth rp (depth rp) of
          Some n \<Rightarrow> fragmentSize (nodeContent n)
        | None \<Rightarrow> 0)"

section \<open>The insertion command\<close>

text \<open>The selection of the editor state; \<open>from\<close> and \<open>to\<close> are its lower and upper
  end.\<close>

record selection =
  anchor :: int
  head :: int

definition sel_from :: "selection \<Rightarrow> int" where
  "sel_from s = min (anchor s) (head s)"

definition sel_to :: "selection \<Rightarrow> int" where
  "sel_to s = max (anchor s) (head s)"

record editor_state =
  doc :: pmnode
  sel :: selection

text \<open>
  A transaction, as far as the command drives it: the replace steps it has recorded
  (start, end and inserted nodes, as passed to the library) and the cursor request of
  the last selection update (position and search bias), if any. Fitting the nodes into
  the document and applying the step are the library's work and are not modelled.
\<close>

datatype step = ReplaceStep int int "pmnode list"

record transaction =
  steps :: "step list"
  cursor :: "(int \<times> int) option"

text \<open>
  \<^verbatim>\<open>tr.replaceWith(from, to, nodes)\<close>: nothing is recorded for an empty replacement
  of an empty range; otherwise both ends are resolved in the document (which raises
  out of range) and one step is recorded.
\<close>

definition replaceWith ::
  "pmnode \<Rightarrow> int \<Rightarrow> int \<Rightarrow> pmnode list \<Rightarrow> transaction \<Rightarrow> error + transaction" where
  "replaceWith d f t nodes tr =
     (if f = t \<and> fragmentSize nodes = 0 then Inr tr
      else (case resolve d f of
              Inl e \<Rightarrow> Inl e
            | Inr rf \<Rightarrow>
                (case resolve d t of
                   Inl e \<Rightarrow> Inl e
                 | Inr rt \<Rightarrow> Inr (tr\<lparr>steps := steps tr @ [ReplaceStep f t nodes]\<rparr>))))"

text \<open>\<^verbatim>\<open>tr.insert(pos, nodes)\<close> is \<^verbatim>\<open>replaceWith(pos, pos, nodes)\<close>.\<close>

definition insert_nodes ::
  "pmnode \<Rightarrow> int \<Rightarrow> pmnode list \<Rightarrow> transaction \<Rightarrow> error + transaction" where
  "insert_nodes d pos nodes tr = replaceWith d pos pos nodes tr"

text \<open>
  Modelled from the spec: \<^verbatim>\<open>selectionToInsertionEnd\<close> lives in
  \<^verbatim>\<open>src/internal/selection-to-insertion-end\<close>, which is not among the sources. The
  specification says that it adjusts the transaction's recorded selection so that the
  cursor lands at the end of the just-inserted content. The model does so for the last
  step when its index is at least \<open>startLen\<close>, and records the bias it was given.
\<close>

definition selectionToInsertionEnd :: "transaction \<Rightarrow> int \<Rightarrow> int \<Rightarrow> transaction" where
  "selectionToInsertionEnd tr startLen bias =
     (let last = int (length (steps tr)) - 1
      in if last < startLen \<or> last < 0 then tr
         else (case steps tr ! nat last of
                 ReplaceStep f t nodes \<Rightarrow>
                   tr\<lparr>cursor := Some (f + int (fragmentSize nodes), bias)\<rparr>))"

text \<open>The argument of the command: one attachment or an array of them.\<close>

datatype options = Single attachment_attrs | Many "attachment_attrs list"

text \<open>\<^verbatim>\<open>Array.isArray(options) ? options : [].concat(options)\<close>.\<close>

definition attachments_of :: "options \<Rightarrow> attachment_attrs list" where
  "attachments_of opts = (case opts of Many xs \<Rightarrow> xs | Single x \<Rightarrow> [x])"

text \<open>\<^verbatim>\<open>schema.nodes[...].create(...)\<close> for the three node types the command builds.\<close>

definition create_figure :: "attachment_attrs \<Rightarrow> pmnode" where
  "create_figure attachment =
     Node ''attachment-figure'' (FigureAttrs attachment)
       (if caption attachment \<noteq> [] then [Text (caption attachment)] else [])"

definition create_gallery :: "pmnode list \<Rightarrow> pmnode" where
  "create_gallery nodes = Node ''attachment-gallery'' NoAttrs nodes"

definition create_paragraph :: pmnode where
  "create_paragraph = Node ''paragraph'' NoAttrs []"

text \<open>\<^verbatim>\<open>rp.node(1).type.name === "attachment-gallery"\<close>, which raises when the
  position has no ancestor at depth 1, and the guarded form
  \<^verbatim>\<open>rp.node(1)?.type.name === "attachment-gallery"\<close>.\<close>

definition in_gallery_strict :: "resolved_pos \<Rightarrow> error + bool" where
  "in_gallery_strict rp =
     (case node_at_depth rp 1 of
        None \<Rightarrow> Inl TypeError
      | Some n \<Rightarrow> Inr (typeName n = ''attachment-gallery''))"

definition in_gallery_guarded :: "resolved_pos \<Rightarrow> bool" where
  "in_gallery_guarded rp =
     (case node_at_depth rp 1 of
        None \<Rightarrow> False
      | Some n \<Rightarrow> typeName n = ''attachment-gallery'')"

text \<open>
  \<^verbatim>\<open>setAttachment(options)({ state, tr, dispatch })\<close>. The result is the exception
  raised, or the returned value together with the transaction as the command leaves
  it and the transaction handed to \<open>dispatch\<close> (none when no \<open>dispatch\<close> is given).
\<close>

definition setAttachment ::
  "options \<Rightarrow> editor_state \<Rightarrow> transaction \<Rightarrow> bool
     \<Rightarrow> error + bool \<times> transaction \<times> transaction option" where
  "setAttachment opts state tr dispatch =
     (case resolve (doc state) (anchor (sel state)) of
        Inl e \<Rightarrow> Inl e
      | Inr currentSelection \<Rightarrow>
          let before = (if anchor (sel state) - 2 < 0 then 0 else anchor (sel state) - 2)
          in (case resolve (doc state) before of
                Inl e \<Rightarrow> Inl e
              | Inr nodeBefore \<Rightarrow>
                  (case in_gallery_strict currentSelection of
                     Inl e \<Rightarrow> Inl e
                   | Inr isInGalleryCurrent \<Rightarrow>
                       let isInGalleryAfter = in_gallery_guarded nodeBefore;
                           isInGallery = (isInGalleryCurrent \<or> isInGalleryAfter);
                           attachments = attachments_of opts;
                           attachmentNodes = map create_figure attachments;
                           edited =
                             (if isInGallery then
                                let e = int (end_pos currentSelection);
                                    backtrack = (if isInGalleryCurrent then 0 else 2)
                                in insert_nodes (doc state) (e - backtrack) attachmentNodes tr
                              else
                                let gallery = create_gallery attachmentNodes
                                in (case replaceWith (doc state)
                                          (sel_from (sel state) - 1) (sel_to (sel state))
                                          [create_paragraph, gallery, create_paragraph] tr of
                                      Inl e \<Rightarrow> Inl e
                                    | Inr tr' \<Rightarrow>
                                        Inr (selectionToInsertionEnd tr'
                                               (int (length (steps tr')) - 1) (- 1))))
                       in (case edited of
                             Inl e \<Rightarrow> Inl e
                           | Inr tr' \<Rightarrow> Inr (True, tr', if dispatch then Some tr' else None)))))"

text \<open>
  The two adjacency checks as functions of the editor state: the first raises what the
  command raises there, the second is false where its position has no ancestor at
  depth 1. \<open>in_doc\<close> says that a position lies within the document content.
\<close>

definition before_pos :: "editor_state \<Rightarrow> int" where
  "before_pos state = (if anchor (sel state) - 2 < 0 then 0 else anchor (sel state) - 2)"

definition isInGalleryCurrent :: "editor_state \<Rightarrow> error + bool" where
  "isInGalleryCurrent state =
     (case resolve (doc state) (anchor (sel state)) of
        Inl e \<Rightarrow> Inl e
      | Inr currentSelection \<Rightarrow> in_gallery_strict currentSelection)"

definition isInGalleryAfter :: "editor_state \<Rightarrow> bool" where
  "isInGalleryAfter state =
     (case resolve (doc state) (before_pos state) of
        Inl e \<Rightarrow> False
      | Inr nodeBefore \<Rightarrow> in_gallery_guarded nodeBefore)"

definition in_doc :: "pmnode \<Rightarrow> int \<Rightarrow> bool" where
  "in_doc d pos = (0 \<le> pos \<and> pos \<le> int (fragmentSize (nodeContent d)))"

text \<open>
  The end of the block the cursor is in, \<^verbatim>\<open>currentSelection.end()\<close>, as a function of
  the editor state (0 where the cursor does not resolve).
\<close>

definition current_end :: "editor_state \<Rightarrow> int" where
  "current_end state =
     (case resolve (doc state) (anchor (sel state)) of
        Inl e \<Rightarrow> 0
      | Inr currentSelection \<Rightarrow> int (end_pos currentSelection))"

text \<open>
  The edit for a new gallery as the specification words it: the selection range itself
  is replaced by an empty paragraph, the gallery with the new figures, and an empty
  paragraph. Used only to compare with the step the command records.
\<close>

definition spec_new_gallery_step :: "editor_state \<Rightarrow> options \<Rightarrow> step" where
  "spec_new_gallery_step state opts =
     ReplaceStep (sel_from (sel state)) (sel_to (sel state))
       [create_paragraph, create_gallery (map create_figure (attachments_of opts)),
        create_paragraph]"

text \<open>Whether the outcome of the command holds a step that inserts a gallery without
  children.\<close>

definition produces_empty_gallery :: "error + bool \<times> transaction \<times> transaction option \<Rightarrow> bool" where
  "produces_empty_gallery r =
     (case r of
        Inl e \<Rightarrow> False
      | Inr (b, tr, d) \<Rightarrow>
          list_ex (\<lambda>s. case s of ReplaceStep f t nodes \<Rightarrow> create_gallery [] \<in> set nodes)
            (steps tr))"

text \<open>The steps recorded in the outcome of the command (none when it raises).\<close>

definition steps_of :: "error + bool \<times> transaction \<times> transaction option \<Rightarrow> step list" where
  "steps_of r = (case r of Inl e \<Rightarrow> [] | Inr (b, tr, d) \<Rightarrow> steps tr)"

text \<open>Sample documents: a single empty paragraph, a paragraph with text, and a gallery
  holding one figure with default attributes.\<close>

definition doc_empty_paragraph :: pmnode where
  "doc_empty_paragraph = Node ''doc'' NoAttrs [create_paragraph]"

definition doc_text_paragraph :: pmnode where
  "doc_text_paragraph = Node ''doc'' NoAttrs [Node ''paragraph'' NoAttrs [Text ''hi'']]"

definition doc_one_gallery :: pmnode where
  "doc_one_gallery = Node ''doc'' NoAttrs [create_gallery [create_figure default_attrs]]"

definition cursor_at :: "pmnode \<Rightarrow> int \<Rightarrow> editor_state" where
  "cursor_at d pos = \<lparr>doc = d, sel = \<lparr>anchor = pos, head = pos\<rparr>\<rparr>"

definition empty_transaction :: transaction where
  "empty_transaction = \<lparr>steps = [], cursor = None\<rparr>"

text \<open>
  Whether a position is the start of the content of a block below the top level of
  the document: it resolves at depth 1 or deeper with \<^verbatim>\<open>parentOffset\<close> 0, that is,
  at \<^verbatim>\<open>start(depth)\<close>. The position before it is then the one in front of that block.
\<close>

definition at_block_start :: "pmnode \<Rightarrow> int \<Rightarrow> bool" where
  "at_block_start d pos =
     (case resolve d pos of
        Inl e \<Rightarrow> False
      | Inr rp \<Rightarrow> 1 \<le> depth rp \<and> rpos rp = start_at rp (depth rp))"

text \<open>
  More samples: a document of two paragraphs with text, an attachment with a caption
  and one without, and a transaction that already holds a step and a cursor request.
\<close>

definition doc_two_paragraphs :: pmnode where
  "doc_two_paragraphs =
     Node ''doc'' NoAttrs
       [Node ''paragraph'' NoAttrs [Text ''intro''], Node ''paragraph'' NoAttrs [Text ''hi'']]"

definition captioned_attrs :: attachment_attrs where
  "captioned_attrs = default_attrs\<lparr>caption := ''one'', fileName := ''a.png''\<rparr>"

definition plain_attrs :: attachment_attrs where
  "plain_attrs = default_attrs\<lparr>sgid := ''s2'', url := ''/blobs/2''\<rparr>"

definition busy_transaction :: transaction where
  "busy_transaction = \<lparr>steps = [ReplaceStep 1 1 [Text ''x'']], cursor = Some (2, 1)\<rparr>"

section \<open>JSON texts\<close>

text \<open>
  The attribute blobs are written with \<^verbatim>\<open>JSON.stringify\<close> and read with
  \<^verbatim>\<open>JSON.parse\<close>. The model covers the fragment the extension writes: a scalar
  (null, a boolean, a natural number, a string) or an object whose members are scalars,
  without insignificant whitespace. Strings are escaped as \<^verbatim>\<open>JSON.stringify\<close>
  escapes them; the parser accepts every escape of the grammar whose character fits
  the 8-bit characters of the model. Numbers are natural numbers written with all
  their digits, as JavaScript writes the integers it represents exactly below
  \<open>10\<^sup>2\<^sup>1\<close>. For a text outside the fragment the model reports
  a syntax error only where the text cannot be JSON at all, and otherwise does not say
  what \<^verbatim>\<open>JSON.parse\<close> makes of it.
\<close>

text \<open>
  The outcome of evaluating an expression whose result may lie outside the model: the
  value returned, the exception raised, or no statement.
\<close>

datatype 'a outcome = Returns 'a | Raises error | Unmodelled

text \<open>Scalar values, and a parsed JSON value: a scalar or an object with its members in
  the order of the text.\<close>

datatype scalar = SNull | SBool bool | SNum nat | SStr string

datatype json = JScalar scalar | JObject "(string \<times> scalar) list"

text \<open>
  \<^verbatim>\<open>JSON.stringify\<close> on a string: the quotation mark and the backslash are escaped
  with a backslash, the control characters below 0x20 by their short form or as
  \<^verbatim>\<open>\u00XX\<close> with lower-case hexadecimal digits, every other character is copied.
\<close>

definition hex_digit :: "nat \<Rightarrow> char" where
  "hex_digit n = (if n < 10 then char_of (48 + n) else char_of (87 + n))"

definition escape_char :: "char \<Rightarrow> string" where
  "escape_char c =
     (let n = (of_char c :: nat)
      in if c = CHR 0x22 then [CHR 0x5C, CHR 0x22]
         else if c = CHR 0x5C then [CHR 0x5C, CHR 0x5C]
         else if n = 8 then [CHR 0x5C, CHR ''b'']
         else if n = 12 then [CHR 0x5C, CHR ''f'']
         else if n = 10 then [CHR 0x5C, CHR ''n'']
         else if n = 13 then [CHR 0x5C, CHR ''r'']
         else if n = 9 then [CHR 0x5C, CHR ''t'']
         else if n < 32 then [CHR 0x5C, CHR ''u'', CHR ''0'', CHR ''0'', hex_digit (n div 16), hex_digit (n mod 16)]
         else [c])"

definition quote :: "string \<Rightarrow> string" where
  "quote s = CHR 0x22 # concat (map escape_char s) @ [CHR 0x22]"

text \<open>The decimal digits of a natural number.\<close>

function digits :: "nat \<Rightarrow> string" where
  "digits n = (if n < 10 then [char_of (48 + n)] else digits (n div 10) @ [char_of (48 + n mod 10)])"
  by pat_completeness auto
termination by (relation "measure id") auto

declare digits.simps [simp del]

text \<open>\<^verbatim>\<open>JSON.stringify\<close> on a scalar and on an object: members are written in their
  order, separated by commas, without whitespace.\<close>

fun stringify_scalar :: "scalar \<Rightarrow> string" where
  "stringify_scalar SNull = ''null''"
| "stringify_scalar (SBool b) = (if b then ''true'' else ''false'')"
| "stringify_scalar (SNum n) = digits n"
| "stringify_scalar (SStr s) = quote s"

definition stringify_member :: "string \<times> scalar \<Rightarrow> string" where
  "stringify_member kv = quote (fst kv) @ '':'' @ stringify_scalar (snd kv)"

fun join_commas :: "string list \<Rightarrow> string" where
  "join_commas [] = []"
| "join_commas [x] = x"
| "join_commas (x # y # ys) = x @ '','' @ join_commas (y # ys)"

fun JSON_stringify :: "json \<Rightarrow> string" where
  "JSON_stringify (JScalar v) = stringify_scalar v"
| "JSON_stringify (JObject kvs) = ''{'' @ join_commas (map stringify_member kvs) @ ''}''"

text \<open>
  \<^verbatim>\<open>JSON.parse\<close> on a string token, after its opening quotation mark: the result is
  the string and the input that follows the closing quotation mark. A raw control
  character, an unknown escape and a missing closing quotation mark are errors.
\<close>

definition unhex :: "char \<Rightarrow> nat option" where
  "unhex c =
     (let n = (of_char c :: nat)
      in if 48 \<le> n \<and> n \<le> 57 then Some (n - 48)
         else if 97 \<le> n \<and> n \<le> 102 then Some (n - 87)
         else if 65 \<le> n \<and> n \<le> 70 then Some (n - 55)
         else None)"

definition simple_escape :: "char \<Rightarrow> char option" where
  "simple_escape e =
     (if e = CHR 0x22 then Some (CHR 0x22)
      else if e = CHR 0x5C then Some (CHR 0x5C)
      else if e = CHR ''/'' then Some (CHR ''/'')
      else if e = CHR ''b'' then Some (char_of (8::nat))
      else if e = CHR ''f'' then Some (char_of (12::nat))
      else if e = CHR ''n'' then Some (char_of (10::nat))
      else if e = CHR ''r'' then Some (char_of (13::nat))
      else if e = CHR ''t'' then Some (char_of (9::nat))
      else None)"

definition unicode_escape :: "string \<Rightarrow> char option" where
  "unicode_escape hs =
     (case map unhex hs of
        [Some a, Some b, Some c, Some d] \<Rightarrow>
          if a = 0 \<and> b = 0 then Some (char_of (16 * c + d)) else None
      | _ \<Rightarrow> None)"

fun parse_chars :: "string \<Rightarrow> (string \<times> string) option" where
  "parse_chars [] = None"
| "parse_chars (c # cs) =
     (if c = CHR 0x22 then Some ([], cs)
      else if c = CHR 0x5C then
        (case cs of
           [] \<Rightarrow> None
         | e # r \<Rightarrow>
             if e = CHR ''u'' then
               (case unicode_escape (take 4 r) of
                  None \<Rightarrow> None
                | Some ch \<Rightarrow> map_option (\<lambda>(s, rest). (ch # s, rest)) (parse_chars (drop 4 r)))
             else
               (case simple_escape e of
                  None \<Rightarrow> None
                | Some ch \<Rightarrow> map_option (\<lambda>(s, rest). (ch # s, rest)) (parse_chars r)))
      else if (of_char c :: nat) < 32 then None
      else map_option (\<lambda>(s, rest). (c # s, rest)) (parse_chars cs))"

lemma parse_chars_shorter: "parse_chars s = Some (x, r) \<Longrightarrow> length r < length s"
proof (induction s arbitrary: x r rule: parse_chars.induct)
  case 1
  then show ?case by simp
next
  case (2 c cs)
  show ?case
  proof (cases "c = CHR 0x22")
    case True
    with "2.prems" show ?thesis by simp
  next
    case nq: False
    show ?thesis
    proof (cases "c = CHR 0x5C")
      case False
      with nq "2.prems" obtain x' where "parse_chars cs = Some (x', r)"
        by (auto split: if_splits)
      from "2.IH"(3) [OF nq False _ this] "2.prems" nq False show ?thesis
        by (auto split: if_splits)
    next
      case True
      then obtain e t where cs: "cs = e # t" using "2.prems" nq by (cases cs) auto
      show ?thesis
      proof (cases "e = CHR ''u''")
        case eu: True
        with "2.prems" nq True cs obtain ch x' where
          "unicode_escape (take 4 t) = Some ch" "parse_chars (drop 4 t) = Some (x', r)"
          by (auto split: option.splits)
        from "2.IH"(1) [OF nq True cs eu this(1) this(2)] cs show ?thesis by simp
      next
        case False
        with "2.prems" nq True cs obtain ch x' where
          "simple_escape e = Some ch" "parse_chars t = Some (x', r)"
          by (auto split: option.splits)
        from "2.IH"(2) [OF nq True cs False this(1) this(2)] cs show ?thesis by simp
      qed
    qed
  qed
qed

text \<open>A string token, a number token (digits without a leading zero), a scalar and an
  object member \<^verbatim>\<open>"key":value\<close>, each with the input that follows it.\<close>

definition parse_string :: "string \<Rightarrow> (string \<times> string) option" where
  "parse_string s = (case s of [] \<Rightarrow> None | q # cs \<Rightarrow> if q = CHR 0x22 then parse_chars cs else None)"

definition is_digit :: "char \<Rightarrow> bool" where
  "is_digit c = (48 \<le> (of_char c :: nat) \<and> (of_char c :: nat) \<le> 57)"

definition digits_value :: "string \<Rightarrow> nat" where
  "digits_value ds = foldl (\<lambda>acc c. 10 * acc + (of_char c - 48)) 0 ds"

definition parse_number :: "string \<Rightarrow> (nat \<times> string) option" where
  "parse_number s =
     (let ds = takeWhile is_digit s
      in if ds = [] then None
         else if length ds > 1 \<and> hd ds = CHR ''0'' then None
         else Some (digits_value ds, dropWhile is_digit s))"

definition parse_scalar :: "string \<Rightarrow> (scalar \<times> string) option" where
  "parse_scalar s =
     (if prefix ''null'' s then Some (SNull, drop 4 s)
      else if prefix ''true'' s then Some (SBool True, drop 4 s)
      else if prefix ''false'' s then Some (SBool False, drop 5 s)
      else if prefix [CHR 0x22] s then map_option (\<lambda>(x, r). (SStr x, r)) (parse_string s)
      else map_option (\<lambda>(n, r). (SNum n, r)) (parse_number s))"

definition parse_member :: "string \<Rightarrow> ((string \<times> scalar) \<times> string) option" where
  "parse_member s =
     (case parse_string s of
        None \<Rightarrow> None
      | Some (k, r) \<Rightarrow>
          (case r of
             [] \<Rightarrow> None
           | c # r' \<Rightarrow>
               if c = CHR '':'' then map_option (\<lambda>(v, rest). ((k, v), rest)) (parse_scalar r')
               else None))"

lemma parse_string_shorter: "parse_string s = Some (x, r) \<Longrightarrow> length r < length s"
  by (cases s) (auto simp: parse_string_def dest: parse_chars_shorter split: if_splits)

lemma parse_scalar_shorter: "parse_scalar s = Some (v, r) \<Longrightarrow> length r \<le> length s"
  by (auto simp: parse_scalar_def parse_number_def Let_def length_dropWhile_le
      dest!: parse_string_shorter split: if_splits)

lemma parse_member_shorter: "parse_member s = Some (kv, r) \<Longrightarrow> length r < length s"
  by (auto simp: parse_member_def dest!: parse_string_shorter parse_scalar_shorter
      split: option.splits list.splits if_splits)

text \<open>The members of an object up to and including the closing brace.\<close>

function parse_members :: "string \<Rightarrow> ((string \<times> scalar) list \<times> string) option" where
  "parse_members s =
     (case parse_member s of
        None \<Rightarrow> None
      | Some (kv, r) \<Rightarrow>
          (case r of
             [] \<Rightarrow> None
           | c # r' \<Rightarrow>
               if c = CHR '','' then map_option (\<lambda>(kvs, rest). (kv # kvs, rest)) (parse_members r')
               else if c = CHR ''}'' then Some ([kv], r')
               else None))"
  by pat_completeness auto
termination
proof (relation "measure length", goal_cases)
  case 1
  show ?case by simp
next
  case (2 s x2 kv r c r')
  then have "parse_member s = Some (kv, c # r')" by metis
  from parse_member_shorter [OF this] show ?case by simp
qed

declare parse_members.simps [simp del]

text \<open>A text of the fragment as a whole: one object or one scalar, with nothing before
  or after it.\<close>

definition parse_fragment :: "string \<Rightarrow> json option" where
  "parse_fragment s =
     (case s of
        [] \<Rightarrow> None
      | c # cs \<Rightarrow>
          if c = CHR ''{'' then
            (if cs = ''}'' then Some (JObject [])
             else (case parse_members cs of
                     Some (kvs, []) \<Rightarrow> Some (JObject kvs)
                   | _ \<Rightarrow> None))
          else (case parse_scalar s of
                  Some (v, []) \<Rightarrow> Some (JScalar v)
                | _ \<Rightarrow> None))"

text \<open>
  Texts that no JSON grammar accepts. Around its value a JSON text has only spaces,
  tabs, line feeds and carriage returns; the value begins with a brace, a bracket, a
  quotation mark, a minus sign, a digit or the first letter of \<^verbatim>\<open>true\<close>,
  \<^verbatim>\<open>false\<close> or \<^verbatim>\<open>null\<close>, and it ends with a closing brace or bracket, a
  quotation mark, a digit or the last letter of one of the three words. A text that is
  empty, or whose first or last significant character is none of these, is malformed.
\<close>

definition is_json_space :: "char \<Rightarrow> bool" where
  "is_json_space c =
     (let n = (of_char c :: nat) in n = 32 \<or> n = 9 \<or> n = 10 \<or> n = 13)"

definition json_first :: "char \<Rightarrow> bool" where
  "json_first c =
     (c = CHR ''{'' \<or> c = CHR ''['' \<or> c = CHR 0x22 \<or> c = CHR ''-'' \<or> is_digit c
      \<or> c = CHR ''t'' \<or> c = CHR ''f'' \<or> c = CHR ''n'')"

definition json_last :: "char \<Rightarrow> bool" where
  "json_last c =
     (c = CHR ''}'' \<or> c = CHR '']'' \<or> c = CHR 0x22 \<or> is_digit c
      \<or> c = CHR ''e'' \<or> c = CHR ''l'')"

definition surely_malformed :: "string \<Rightarrow> bool" where
  "surely_malformed s =
     (case dropWhile is_json_space s of
        [] \<Rightarrow> True
      | c # r \<Rightarrow>
          if json_first c then
            (case dropWhile is_json_space (rev s) of
               [] \<Rightarrow> True
             | d # r' \<Rightarrow> if json_last d then False else True)
          else True)"

text \<open>
  \<^verbatim>\<open>JSON.parse\<close>: the value of a text of the fragment, a syntax error for a text
  that cannot be JSON (the empty text among them), and no statement for any other
  text.
\<close>

definition JSON_parse :: "string \<Rightarrow> json outcome" where
  "JSON_parse s =
     (case parse_fragment s of
        Some j \<Rightarrow> Returns j
      | None \<Rightarrow> if surely_malformed s then Raises SyntaxError else Unmodelled)"

text \<open>What may follow a member value inside an object text, or the end of the input.\<close>

definition delimited :: "string \<Rightarrow> bool" where
  "delimited rest = (case rest of [] \<Rightarrow> True | c # r \<Rightarrow> c = CHR '','' \<or> c = CHR ''}'')"

section \<open>Serialization of a figure\<close>

text \<open>
  JavaScript values as the parse rules return them: \<open>None\<close> is \<open>undefined\<close>, and
  \<open>Some\<close> holds null, a boolean, a number or a string. \<open>truthy\<close> is the test that
  \<^verbatim>\<open>||\<close> and \<^verbatim>\<open>!\<close> apply.
\<close>

type_synonym jsval = "scalar option"

fun truthy :: "jsval \<Rightarrow> bool" where
  "truthy None = False"
| "truthy (Some SNull) = False"
| "truthy (Some (SBool b)) = b"
| "truthy (Some (SNum n)) = (n \<noteq> 0)"
| "truthy (Some (SStr s)) = (s \<noteq> [])"

text \<open>\<^verbatim>\<open>a || b\<close>.\<close>

definition js_or :: "jsval \<Rightarrow> jsval \<Rightarrow> jsval" where
  "js_or a b = (if truthy a then a else b)"

text \<open>
  Reading a property of a parsed JSON value: a member of an object (the last one of
  that name), \<open>undefined\<close> for a missing member or for a primitive, and a type error
  for null.
\<close>

definition get_prop :: "json \<Rightarrow> string \<Rightarrow> error + jsval" where
  "get_prop j k =
     (case j of
        JObject kvs \<Rightarrow> Inr (map_of (rev kvs) k)
      | JScalar SNull \<Rightarrow> Inl TypeError
      | JScalar v \<Rightarrow> Inr None)"

text \<open>Width and height as JSON values and as attribute text (\<^verbatim>\<open>String(value)\<close>).\<close>

fun dim_scalar :: "dim \<Rightarrow> scalar" where
  "dim_scalar (DimStr s) = SStr s"
| "dim_scalar (DimNum n) = SNum n"

fun dim_text :: "dim \<Rightarrow> string" where
  "dim_text (DimStr s) = s"
| "dim_text (DimNum n) = digits n"

type_synonym html_attrs = "(string \<times> string) list"

text \<open>
  \<^verbatim>\<open>mergeAttributes\<close> of the editor framework for two attribute objects: a key that
  is new, or whose present value is falsy, takes the new value; \<open>class\<close> and
  \<open>style\<close> are joined; any other key is overwritten. Keys keep their insertion order.
\<close>

definition merge_entry :: "html_attrs \<Rightarrow> string \<times> string \<Rightarrow> html_attrs" where
  "merge_entry merged kv =
     (case map_of merged (fst kv) of
        None \<Rightarrow> merged @ [kv]
      | Some ex \<Rightarrow>
          if ex = [] then AList.update (fst kv) (snd kv) merged
          else if fst kv = ''class'' then AList.update (fst kv) (ex @ '' '' @ snd kv) merged
          else if fst kv = ''style'' then AList.update (fst kv) (ex @ ''; '' @ snd kv) merged
          else AList.update (fst kv) (snd kv) merged)"

definition mergeAttributes :: "html_attrs \<Rightarrow> html_attrs \<Rightarrow> html_attrs" where
  "mergeAttributes a b = foldl merge_entry (foldl merge_entry [] a) b"

text \<open>\<^verbatim>\<open>addOptions()\<close>: the configured \<open>HTMLAttributes\<close>.\<close>

definition options_class :: string where
  "options_class = ''attachment''"

definition options_HTMLAttributes :: html_attrs where
  "options_HTMLAttributes =
     [(''class'', options_class),
      (''data-trix-attributes'', JSON_stringify (JObject [(''presentation'', SStr ''gallery'')]))]"

text \<open>
  The output of \<^verbatim>\<open>renderHTML\<close>: the attributes of the \<open>figure\<close> element and its
  children. \<open>Figcaption\<close> carries the content hole, where the editor renders the
  caption content of the node. \<open>Content\<close> stands for embedded raw markup; the node view
  produces it, and the specification speaks of it.
\<close>

datatype figure_child =
    Img html_attrs
  | Figcaption html_attrs
  | Content string

record figure_spec =
  figure_attrs :: html_attrs
  figure_children :: "figure_child list"

text \<open>The object \<open>attachmentAttrs\<close> that \<^verbatim>\<open>renderHTML\<close> writes into the blob.\<close>

definition attachmentAttrs :: "attachment_attrs \<Rightarrow> (string \<times> scalar) list" where
  "attachmentAttrs a =
     [(''caption'', SStr (caption a)),
      (''contentType'', SStr (contentType a)),
      (''content'', SStr (content a)),
      (''filename'', SStr (fileName a)),
      (''filesize'', SStr (fileSize a)),
      (''height'', dim_scalar (height a)),
      (''width'', dim_scalar (width a)),
      (''sgid'', SStr (sgid a)),
      (''url'', SStr (url a)),
      (''src'', SStr (src a))]"

definition figure_class :: "attachment_attrs \<Rightarrow> string" where
  "figure_class a =
     options_class @ '' '' @
       toType (Some (content a)) (canPreview (previewable a) (Some (contentType a))) @ '' '' @
       toExtension (Some (fileName a))"

definition renderHTML :: "attachment_attrs \<Rightarrow> figure_spec" where
  "renderHTML a =
     (let figure =
            mergeAttributes options_HTMLAttributes
              [(''class'', figure_class a),
               (''data-trix-content-type'', contentType a),
               (''data-trix-attachment'', JSON_stringify (JObject (attachmentAttrs a))),
               (''data-trix-attributes'',
                  JSON_stringify (JObject [(''caption'', SStr (caption a)),
                                           (''presentation'', SStr ''gallery'')]))];
          figcaption =
            Figcaption (mergeAttributes []
              [(''class'', ''attachment__caption attachment__caption--edited'')]);
          image =
            Img (mergeAttributes []
              [(''src'', if url a \<noteq> [] then url a else src a),
               (''contenteditable'', ''false''),
               (''width'', dim_text (width a)),
               (''height'', dim_text (height a))])
      in if content a = [] then \<lparr>figure_attrs = figure, figure_children = [image, figcaption]\<rparr>
         else \<lparr>figure_attrs = figure, figure_children = [figcaption]\<rparr>)"

text \<open>
  The children as the specification words them: the image when there is no embedded
  content, the embedded content markup when there is, then the caption element. Used
  only to compare with \<open>renderHTML\<close>.
\<close>

definition spec_figure_children :: "attachment_attrs \<Rightarrow> figure_child list" where
  "spec_figure_children a =
     (if content a = [] then
        [Img [(''src'', if url a \<noteq> [] then url a else src a), (''contenteditable'', ''false''),
              (''width'', dim_text (width a)), (''height'', dim_text (height a))],
         Figcaption [(''class'', ''attachment__caption attachment__caption--edited'')]]
      else
        [Content (content a),
         Figcaption [(''class'', ''attachment__caption attachment__caption--edited'')]])"

section \<open>Parsing a figure element\<close>

text \<open>
  What the parse rules read of a markup element: its attributes
  (\<^verbatim>\<open>getAttribute\<close>), the inner markup of its first \<open>figcaption\<close> descendant
  (\<^verbatim>\<open>querySelector("figcaption")?.innerHTML\<close>) and, of the closest
  \<open>action-text-attachment\<close> ancestor, the attributes and the inner markup
  (\<^verbatim>\<open>closest(...)?.innerHTML\<close>).
\<close>

record wrapper =
  w_attributes :: html_attrs
  w_innerHTML :: string

record element =
  el_attributes :: html_attrs
  el_figcaption :: "string option"
  el_wrapper :: "wrapper option"

definition getAttribute :: "element \<Rightarrow> string \<Rightarrow> string option" where
  "getAttribute el name = map_of (el_attributes el) name"

text \<open>A string that may be missing, as a JavaScript value.\<close>

definition js_string :: "string option \<Rightarrow> jsval" where
  "js_string s = map_option SStr s"

text \<open>
  Modelled from the spec: \<^verbatim>\<open>findAttribute\<close> lives in
  \<^verbatim>\<open>src/exports/extensions/find-attribute\<close>, which is not among the sources. The
  specification resolves a field from the explicit attribute first and otherwise
  reconstructs it from the JSON blob on the marker attribute \<open>data-trix-attachment\<close>;
  the comment in the content type rule places the explicit attribute on the
  \<open>action-text-attachment\<close> element. Where there is no explicit attribute and the
  metadata attribute is missing or does not hold the JSON text of an object, the model
  does not say what the helper does.
\<close>

definition explicit_attribute :: "element \<Rightarrow> string \<Rightarrow> jsval" where
  "explicit_attribute el name =
     (case el_wrapper el of None \<Rightarrow> None | Some w \<Rightarrow> js_string (map_of (w_attributes w) name))"

definition findAttribute :: "element \<Rightarrow> string \<Rightarrow> jsval outcome" where
  "findAttribute el name =
     (if truthy (explicit_attribute el name) then Returns (explicit_attribute el name)
      else (case getAttribute el ''data-trix-attachment'' of
              None \<Rightarrow> Unmodelled
            | Some blob \<Rightarrow>
                (case JSON_parse blob of
                   Returns (JObject kvs) \<Rightarrow> Returns (map_of (rev kvs) name)
                 | _ \<Rightarrow> Unmodelled)))"

text \<open>\<^verbatim>\<open>element.getAttribute("data-trix-attachment") || fallback\<close>.\<close>

definition blob_or :: "element \<Rightarrow> string \<Rightarrow> string" where
  "blob_or el fallback =
     (case getAttribute el ''data-trix-attachment'' of
        None \<Rightarrow> fallback
      | Some b \<Rightarrow> if b = [] then fallback else b)"

text \<open>Continuing with the value of an outcome.\<close>

fun and_then :: "'a outcome \<Rightarrow> ('a \<Rightarrow> 'b outcome) \<Rightarrow> 'b outcome" where
  "and_then (Returns v) f = f v"
| "and_then (Raises e) f = Raises e"
| "and_then Unmodelled f = Unmodelled"

text \<open>Reading a property of the outcome of \<^verbatim>\<open>JSON.parse\<close>.\<close>

definition parsed_prop :: "json outcome \<Rightarrow> string \<Rightarrow> jsval outcome" where
  "parsed_prop parsed k =
     and_then parsed (\<lambda>j. case get_prop j k of Inl e \<Rightarrow> Raises e | Inr v \<Rightarrow> Returns v)"

text \<open>The \<^verbatim>\<open>parseHTML\<close> rules of \<^verbatim>\<open>addAttributes\<close>, one definition per field.\<close>

definition parse_caption :: "element \<Rightarrow> jsval outcome" where
  "parse_caption el =
     (if truthy (js_string (el_figcaption el)) then Returns (js_string (el_figcaption el))
      else findAttribute el ''caption'')"

definition parse_sgid :: "element \<Rightarrow> jsval outcome" where
  "parse_sgid el = findAttribute el ''sgid''"

definition parse_src :: "element \<Rightarrow> jsval outcome" where
  "parse_src el = findAttribute el ''src''"

definition parse_height :: "element \<Rightarrow> jsval outcome" where
  "parse_height el = findAttribute el ''height''"

definition parse_width :: "element \<Rightarrow> jsval outcome" where
  "parse_width el = findAttribute el ''width''"

text \<open>
  The content type rule,
  \<^verbatim>\<open>findAttribute(element, "content-type") ||
  JSON.parse(element.getAttribute("data-trix-attachment") || "").contentType ||
  "application/octet-stream"\<close>,
  as a function of the two things it reads of the element: the outcome \<open>found\<close> of the
  call of \<^verbatim>\<open>findAttribute\<close> and the value \<open>blob\<close> of the metadata attribute
  (\<open>None\<close> when the attribute is missing).
\<close>

definition contentType_parseHTML :: "jsval outcome \<Rightarrow> string option \<Rightarrow> jsval outcome" where
  "contentType_parseHTML found blob =
     and_then found (\<lambda>v.
       if truthy v then Returns v
       else and_then
              (parsed_prop (JSON_parse (case blob of None \<Rightarrow> [] | Some b \<Rightarrow> b)) ''contentType'')
              (\<lambda>m. Returns (js_or m (Some (SStr ''application/octet-stream'')))))"

definition parse_contentType :: "element \<Rightarrow> jsval outcome" where
  "parse_contentType el =
     contentType_parseHTML (findAttribute el ''content-type'')
       (getAttribute el ''data-trix-attachment'')"

definition parse_fileName :: "element \<Rightarrow> jsval outcome" where
  "parse_fileName el = findAttribute el ''filename''"

definition parse_fileSize :: "element \<Rightarrow> jsval outcome" where
  "parse_fileSize el = findAttribute el ''filesize''"

definition parse_content :: "element \<Rightarrow> jsval outcome" where
  "parse_content el =
     and_then (findAttribute el ''content'') (\<lambda>v.
       Returns (js_or (js_or v (js_string (map_option w_innerHTML (el_wrapper el))))
                  (Some (SStr []))))"

definition parse_url :: "element \<Rightarrow> jsval outcome" where
  "parse_url el = findAttribute el ''url''"

definition parse_previewable :: "element \<Rightarrow> jsval outcome" where
  "parse_previewable el = parsed_prop (JSON_parse (blob_or el ''{}'')) ''previewable''"

text \<open>
  The values the rules give for one element, in the order of declaration; the first
  rule that does not return decides the outcome for the element.
\<close>

record parsed_attrs =
  p_caption :: jsval
  p_sgid :: jsval
  p_src :: jsval
  p_height :: jsval
  p_width :: jsval
  p_contentType :: jsval
  p_fileName :: jsval
  p_fileSize :: jsval
  p_content :: jsval
  p_url :: jsval
  p_previewable :: jsval

definition parse_element :: "element \<Rightarrow> parsed_attrs outcome" where
  "parse_element el =
     and_then (parse_caption el) (\<lambda>cap.
     and_then (parse_sgid el) (\<lambda>sg.
     and_then (parse_src el) (\<lambda>sr.
     and_then (parse_height el) (\<lambda>h.
     and_then (parse_width el) (\<lambda>w.
     and_then (parse_contentType el) (\<lambda>ct.
     and_then (parse_fileName el) (\<lambda>fn.
     and_then (parse_fileSize el) (\<lambda>fs.
     and_then (parse_content el) (\<lambda>cont.
     and_then (parse_url el) (\<lambda>u.
     and_then (parse_previewable el) (\<lambda>pv.
       Returns \<lparr>p_caption = cap, p_sgid = sg, p_src = sr, p_height = h, p_width = w,
                p_contentType = ct, p_fileName = fn, p_fileSize = fs, p_content = cont,
                p_url = u, p_previewable = pv\<rparr>)))))))))))"

text \<open>
  The element that the serialized figure is when it is parsed again: the attributes of
  the figure, the caption element with the markup \<open>inner\<close> that the editor rendered into
  its content hole, and no \<open>action-text-attachment\<close> ancestor.
\<close>

fun is_figcaption :: "figure_child \<Rightarrow> bool" where
  "is_figcaption (Figcaption a) = True"
| "is_figcaption c = False"

definition rendered_element :: "figure_spec \<Rightarrow> string \<Rightarrow> element" where
  "rendered_element fs inner =
     \<lparr>el_attributes = figure_attrs fs,
      el_figcaption = (if list_ex is_figcaption (figure_children fs) then Some inner else None),
      el_wrapper = None\<rparr>"

text \<open>The attribute set as JavaScript values, field by field, to compare with what the
  parse gives.\<close>

definition attrs_values :: "attachment_attrs \<Rightarrow> parsed_attrs" where
  "attrs_values a =
     \<lparr>p_caption = Some (SStr (caption a)), p_sgid = Some (SStr (sgid a)),
      p_src = Some (SStr (src a)), p_height = Some (dim_scalar (height a)),
      p_width = Some (dim_scalar (width a)), p_contentType = Some (SStr (contentType a)),
      p_fileName = Some (SStr (fileName a)), p_fileSize = Some (SStr (fileSize a)),
      p_content = Some (SStr (content a)), p_url = Some (SStr (url a)),
      p_previewable = Some (SBool (previewable a))\<rparr>"

text \<open>The two JSON texts that \<^verbatim>\<open>renderHTML\<close> puts on the figure.\<close>

definition blob_text :: "attachment_attrs \<Rightarrow> string" where
  "blob_text a = JSON_stringify (JObject (attachmentAttrs a))"

definition presentation_text :: "attachment_attrs \<Rightarrow> string" where
  "presentation_text a =
     JSON_stringify (JObject [(''caption'', SStr (caption a)), (''presentation'', SStr ''gallery'')])"

text \<open>A word between quotation marks, to write out sample JSON texts.\<close>

definition in_quotes :: "string \<Rightarrow> string" where
  "in_quotes s = CHR 0x22 # s @ [CHR 0x22]"

text \<open>A sample attribute set and an element without attributes.\<close>

definition sample_attrs :: attachment_attrs where
  "sample_attrs =
     default_attrs\<lparr>caption := ''hi'', contentType := ''image/png'', fileName := ''a.b.JPG'',
       url := ''/blobs/1'', width := DimNum 12, height := DimNum 8, previewable := True\<rparr>"

definition bare_element :: element where
  "bare_element = \<lparr>el_attributes = [], el_figcaption = None, el_wrapper = None\<rparr>"


section \<open>The node view: dimension writeback and selection move\<close>

text \<open>
  What the event handlers of the node view close over: the attributes of the node the
  view was built for (\<^verbatim>\<open>node.attrs\<close>) and \<^verbatim>\<open>getPos\<close>, which is \<open>None\<close> when it
  is not a function and otherwise the position it returns when called.
\<close>

record node_view =
  view_attrs :: attachment_attrs
  getPos :: "nat option"

text \<open>The two requests a handler can make of the editor.\<close>

datatype editor_op =
    SetTextSelection int
  | SetNodeMarkup nat attachment_attrs

fun dim_truthy :: "dim \<Rightarrow> bool" where
  "dim_truthy (DimStr s) = (s \<noteq> [])"
| "dim_truthy (DimNum n) = (n \<noteq> 0)"

text \<open>The click handler of the figure; \<open>in_caption\<close> says whether the event path passes
  through the caption element.\<close>

definition on_click :: "node_view \<Rightarrow> bool \<Rightarrow> editor_op list" where
  "on_click v in_caption =
     (if in_caption then []
      else (case getPos v of None \<Rightarrow> [] | Some p \<Rightarrow> [SetTextSelection (int p + 1)]))"

text \<open>\<^verbatim>\<open>img.onload\<close> is set only for a previewable attachment that lacks a width or
  a height.\<close>

definition onload_registered :: "node_view \<Rightarrow> bool" where
  "onload_registered v =
     (canPreview (previewable (view_attrs v)) (Some (contentType (view_attrs v)))
      \<and> (\<not> dim_truthy (width (view_attrs v)) \<or> \<not> dim_truthy (height (view_attrs v))))"

text \<open>The load handler, given the natural width and height of the image.\<close>

definition on_load :: "node_view \<Rightarrow> nat \<Rightarrow> nat \<Rightarrow> editor_op list" where
  "on_load v naturalWidth naturalHeight =
     (if onload_registered v then
        (case getPos v of
           None \<Rightarrow> []
         | Some p \<Rightarrow>
             [SetNodeMarkup p
                ((view_attrs v)\<lparr>height := DimNum naturalHeight, width := DimNum naturalWidth\<rparr>)])
      else [])"

text \<open>
  \<^verbatim>\<open>tr.setNodeMarkup(pos, undefined, attrs)\<close> on the content of a node: the node that
  starts at \<open>pos\<close> keeps its type and content and takes the new attributes (a type
  without attributes keeps none). It raises when no node starts at the position, and
  when the position lies in a text node, which cannot be rebuilt.
\<close>

fun retag :: "node_attrs \<Rightarrow> attachment_attrs \<Rightarrow> node_attrs" where
  "retag (FigureAttrs b) a = FigureAttrs a"
| "retag NoAttrs a = NoAttrs"

fun setNodeMarkup :: "pmnode list \<Rightarrow> nat \<Rightarrow> attachment_attrs \<Rightarrow> error + pmnode list" where
  "setNodeMarkup [] pos a = Inl RangeError"
| "setNodeMarkup (Text s # cs) pos a =
     (if pos < length s then Inl GenericError
      else (case setNodeMarkup cs (pos - length s) a of
              Inl e \<Rightarrow> Inl e
            | Inr cs' \<Rightarrow> Inr (Text s # cs')))"
| "setNodeMarkup (Leaf t # cs) pos a =
     (if pos = 0 then Inr (Leaf t # cs)
      else (case setNodeMarkup cs (pos - 1) a of
              Inl e \<Rightarrow> Inl e
            | Inr cs' \<Rightarrow> Inr (Leaf t # cs')))"
| "setNodeMarkup (Node t b kids # cs) pos a =
     (if pos = 0 then Inr (Node t (retag b a) kids # cs)
      else if pos < nodeSize (Node t b kids) then
        (case setNodeMarkup kids (pos - 1) a of
           Inl e \<Rightarrow> Inl e
         | Inr kids' \<Rightarrow> Inr (Node t b kids' # cs))
      else (case setNodeMarkup cs (pos - nodeSize (Node t b kids)) a of
              Inl e \<Rightarrow> Inl e
            | Inr cs' \<Rightarrow> Inr (Node t b kids # cs')))"

text \<open>Applying a request to the document; a selection move leaves the tree as it is.\<close>

fun apply_op :: "editor_op \<Rightarrow> pmnode \<Rightarrow> error + pmnode" where
  "apply_op (SetTextSelection p) d = Inr d"
| "apply_op (SetNodeMarkup p a) (Node t b cs) =
     (case setNodeMarkup cs p a of Inl e \<Rightarrow> Inl e | Inr cs' \<Rightarrow> Inr (Node t b cs'))"
| "apply_op (SetNodeMarkup p a) d = Inl RangeError"

text \<open>
  Every node of a fragment with the position it starts at, in document order: text
  with its characters, other nodes with type name and attributes.
\<close>

datatype node_label = TextLabel string | NodeLabel string node_attrs

fun labels :: "nat \<Rightarrow> pmnode list \<Rightarrow> (nat \<times> node_label) list" where
  "labels start [] = []"
| "labels start (Text s # cs) = (start, TextLabel s) # labels (start + length s) cs"
| "labels start (Leaf t # cs) = (start, NodeLabel t NoAttrs) # labels (start + 1) cs"
| "labels start (Node t b kids # cs) =
     (start, NodeLabel t b) # labels (start + 1) kids
       @ labels (start + nodeSize (Node t b kids)) cs"

text \<open>The change that \<open>setNodeMarkup\<close> is meant to make to the labels: the node at the
  position takes the new attributes, every other entry stays.\<close>

fun relabel :: "nat \<Rightarrow> attachment_attrs \<Rightarrow> nat \<times> node_label \<Rightarrow> nat \<times> node_label" where
  "relabel pos a (p, NodeLabel t b) = (p, NodeLabel t (if p = pos then retag b a else b))"
| "relabel pos a (p, TextLabel s) = (p, TextLabel s)"

text \<open>A view of a previewable figure without dimensions, bound to position 1 of a
  document that holds that figure in a gallery.\<close>

definition image_attrs :: attachment_attrs where
  "image_attrs = default_attrs\<lparr>contentType := ''image/png'', progress := 50\<rparr>"

definition image_view :: node_view where
  "image_view = \<lparr>view_attrs = image_attrs, getPos = Some 1\<rparr>"

definition image_doc :: "pmnode list" where
  "image_doc = [create_gallery [create_figure image_attrs, create_figure default_attrs]]"

section \<open>Properties of the pattern matcher\<close>

lemma word_runs_end:
  "concat (map (\<lambda>r. if r = [] then [f r] else []) (word_runs s)) =
     (if s \<noteq> [] \<and> list_all is_word_char s then [f []] else [])"
  by (induction s) auto

lemma tail_match:
  "rmatch (Seq (Grp 1 WordPlus) Eol) (cap, s) =
     (if s \<noteq> [] \<and> list_all is_word_char s then [((1, s) # cap, [])] else [])"
proof -
  have "rmatch (Seq (Grp 1 WordPlus) Eol) (cap, s) =
        concat (map (\<lambda>r. if r = [] then [((1, take (length s - length r) s) # cap, r)] else [])
          (word_runs s))"
    by (simp add: comp_def case_prod_beta cong: if_cong)
  also have "\<dots> = (if s \<noteq> [] \<and> list_all is_word_char s then [((1, s) # cap, [])] else [])"
    using word_runs_end [of "\<lambda>r. ((1, take (length s - length r) s) # cap, r)" s] by simp
  finally show ?thesis .
qed

lemma anchored_ext:
  "match_anchored extensionPattern s =
     (case s of [] \<Rightarrow> None
      | c # t \<Rightarrow>
          if c = CHR 0x2E \<and> t \<noteq> [] \<and> list_all is_word_char t then Some [(1, t)] else None)"
proof -
  define tl_rx where "tl_rx = Seq (Grp 1 WordPlus) Eol"
  have tl: "rmatch tl_rx (cap, u) =
     (if u \<noteq> [] \<and> list_all is_word_char u then [((1, u) # cap, [])] else [])" for cap u
    unfolding tl_rx_def by (rule tail_match)
  have ep: "extensionPattern = Seq (Str [CHR 0x2E]) tl_rx"
    by (simp add: extensionPattern_def tl_rx_def)
  show ?thesis
  proof (cases s)
    case Nil
    then show ?thesis by (simp add: match_anchored_def ep)
  next
    case (Cons c t)
    then show ?thesis by (simp add: match_anchored_def ep tl)
  qed
qed

lemma dot_not_word: "\<not> is_word_char (CHR 0x2E)"
  by (simp add: is_word_char_def)

text \<open>The search finds the last dot when a non-empty run of word characters follows it
  up to the end of the name, and captures that run.\<close>

lemma search_ext:
  assumes "ext \<noteq> []" "list_all is_word_char ext"
  shows "match_search extensionPattern (pre @ CHR 0x2E # ext) = Some [(1, ext)]"
proof (induction pre)
  case Nil
  show ?case using assms by (simp add: anchored_ext)
next
  case (Cons c pre)
  have "match_anchored extensionPattern (c # pre @ CHR 0x2E # ext) = None"
    by (simp add: anchored_ext dot_not_word)
  then show ?case using Cons by simp
qed

lemma search_ext_none:
  "\<not> (\<exists>pre ext. s = pre @ CHR 0x2E # ext \<and> ext \<noteq> [] \<and> list_all is_word_char ext)
    \<Longrightarrow> match_search extensionPattern s = None"
proof (induction s)
  case Nil
  then show ?case by (simp add: anchored_ext)
next
  case (Cons c s)
  have a: "match_anchored extensionPattern (c # s) = None"
    using Cons.prems [unfolded not_ex, rule_format, of "[]" s] by (auto simp add: anchored_ext)
  have "\<not> (\<exists>pre ext. s = pre @ CHR 0x2E # ext \<and> ext \<noteq> [] \<and> list_all is_word_char ext)"
  proof
    assume "\<exists>pre ext. s = pre @ CHR 0x2E # ext \<and> ext \<noteq> [] \<and> list_all is_word_char ext"
    then obtain pre ext where
      "s = pre @ CHR 0x2E # ext" "ext \<noteq> []" "list_all is_word_char ext" by blast
    then have "c # s = (c # pre) @ CHR 0x2E # ext \<and> ext \<noteq> [] \<and> list_all is_word_char ext"
      by simp
    with Cons.prems show False by blast
  qed
  with Cons.IH a show ?case by simp
qed

lemma extension_group_set:
  "match_search extensionPattern s = Some cap \<Longrightarrow> map_of cap 1 \<noteq> None"
  by (induction s) (auto simp: anchored_ext split: list.splits if_splits option.splits)

lemma previewable_match:
  "rmatch isPreviewable ([], s) \<noteq> [] \<longleftrightarrow>
     (s = ''image'' \<or> prefix ''image/gif'' s \<or> prefix ''image/png'' s
      \<or> prefix ''image/jpg'' s \<or> prefix ''image/jpeg'' s)"
  by (simp add: isPreviewable_def) (auto simp: prefix_def)

lemma match_anchored_None: "match_anchored r s = None \<longleftrightarrow> rmatch r ([], s) = []"
  by (simp add: match_anchored_def split: list.splits prod.splits)

section \<open>Preview classification\<close>

text \<open>
  Claim C5, as the code has it. \<open>canPreview\<close> is true exactly when the explicit flag is
  true, or the content type is the bare text \<open>image\<close>, or the content type begins with
  \<open>image/gif\<close>, \<open>image/png\<close>, \<open>image/jpg\<close> or \<open>image/jpeg\<close>: the pattern anchors the
  subtype alternative at the start only, so anything may follow the subtype. In
  particular \<open>image/svg+xml\<close> and the empty string give false and \<open>image/png\<close> gives
  true.
\<close>

theorem canPreview_iff:
  "(canPreview flag ctype \<longleftrightarrow>
      flag \<or>
      (\<exists>ct. ctype = Some ct \<and>
         (ct = ''image'' \<or> prefix ''image/gif'' ct \<or> prefix ''image/png'' ct
          \<or> prefix ''image/jpg'' ct \<or> prefix ''image/jpeg'' ct)))
   \<and> canPreview False (Some ''image/svg+xml'') = False
   \<and> canPreview False (Some ''image/png'') = True
   \<and> canPreview False (Some []) = False"
proof -
  have gen: "canPreview p c \<longleftrightarrow>
      p \<or> (\<exists>ct. c = Some ct \<and>
         (ct = ''image'' \<or> prefix ''image/gif'' ct \<or> prefix ''image/png'' ct
          \<or> prefix ''image/jpg'' ct \<or> prefix ''image/jpeg'' ct))" for p c
    by (cases c) (simp_all add: canPreview_def match_anchored_None previewable_match)
  show ?thesis
    by (intro conjI, rule gen) (simp_all add: gen)
qed

theorem canPreview_iff_witness:
  "canPreview False (Some ''image/jpeg'') \<and> \<not> canPreview False None
   \<and> canPreview True (Some ''text/plain'')"
  using canPreview_iff [of False "Some ''image/jpeg''"] canPreview_iff [of False None]
    canPreview_iff [of True "Some ''text/plain''"]
  by simp

text \<open>
  The claim as the specification words it asks for a full match of the subtype. A
  content type that carries a parameter after a previewable subtype is classified as
  previewable by the code although it is none of the five exact texts.
\<close>

theorem canPreview_exact_counterexample:
  "canPreview False (Some ''image/png; charset=binary'')
     \<noteq> (False \<or> spec_previewable_type ''image/png; charset=binary'')"
  by (simp add: canPreview_def match_anchored_None previewable_match spec_previewable_type_def)

section \<open>Extension class\<close>

lemma toExtension_undefined: "toExtension None = []"
  by (simp add: toExtension_def)

lemma toExtension_with_extension:
  assumes "ext \<noteq> []" "list_all is_word_char ext"
  shows "toExtension (Some (pre @ CHR 0x2E # ext)) = ''attachment--'' @ toLowerCase ext"
  using search_ext [OF assms, of pre] by (simp add: toExtension_def)

lemma toExtension_without_extension:
  assumes "f \<noteq> []"
    and "\<not> (\<exists>pre ext. f = pre @ CHR 0x2E # ext \<and> ext \<noteq> [] \<and> list_all is_word_char ext)"
  shows "toExtension (Some f) = ''attachment--undefined''"
  using assms(1) search_ext_none [OF assms(2)] by (simp add: toExtension_def)

lemma toExtension_example: "toExtension (Some ''a.b.JPG'') = ''attachment--jpg''"
  by code_simp

text \<open>
  Claim C6 at a file name without an extension. The claim promises an empty suffix or
  an absent class there; the code returns the class \<open>attachment--undefined\<close>, because
  the \<open>undefined\<close> of the failed match is concatenated as text.
\<close>

theorem toExtension_no_extension:
  "toExtension (Some ''README'') = ''attachment--undefined''"
  by code_simp

section \<open>Resolving positions\<close>

text \<open>Every position within the document content resolves: the loops of the library
  never read a child that is not there.\<close>

lemma findIndex_loop_ok:
  "curPos < pos \<Longrightarrow> pos \<le> curPos + fragmentSize cs \<Longrightarrow>
   \<exists>i' off. findIndex_loop cs i curPos pos = Inr (i', off) \<and> off \<le> pos \<and>
     (off < pos \<longrightarrow> i \<le> i' \<and> i' - i < length cs \<and> pos - off < nodeSize (cs ! (i' - i)))"
proof (induction cs arbitrary: i curPos)
  case Nil
  then show ?case by (simp add: fragmentSize_def)
next
  case (Cons c cs)
  show ?case
  proof (cases "curPos + nodeSize c \<ge> pos")
    case True
    with Cons.prems show ?thesis by (auto simp: Let_def)
  next
    case False
    then have lt: "curPos + nodeSize c < pos" by simp
    from Cons.prems have le: "pos \<le> (curPos + nodeSize c) + fragmentSize cs"
      by (simp add: fragmentSize_def)
    from Cons.IH [OF lt le, of "i + 1"] obtain i' off where
      r: "findIndex_loop cs (i + 1) (curPos + nodeSize c) pos = Inr (i', off)" "off \<le> pos"
         "off < pos \<longrightarrow> i + 1 \<le> i' \<and> i' - (i + 1) < length cs \<and> pos - off < nodeSize (cs ! (i' - (i + 1)))"
      by blast
    have "off < pos \<longrightarrow> i \<le> i' \<and> i' - i < length (c # cs) \<and> pos - off < nodeSize ((c # cs) ! (i' - i))"
    proof
      assume "off < pos"
      with r(3) have a: "i + 1 \<le> i'" "i' - (i + 1) < length cs" "pos - off < nodeSize (cs ! (i' - (i + 1)))" by auto
      then have "i' - i = Suc (i' - (i + 1))" by simp
      with a show "i \<le> i' \<and> i' - i < length (c # cs) \<and> pos - off < nodeSize ((c # cs) ! (i' - i))"
        by simp
    qed
    with r False show ?thesis by (simp add: Let_def)
  qed
qed

lemma findIndex_ok:
  assumes "pos \<le> fragmentSize cs"
  shows "\<exists>i off. findIndex cs pos = Inr (i, off) \<and> off \<le> pos \<and>
     (off < pos \<longrightarrow> i < length cs \<and> pos - off < nodeSize (cs ! i))"
proof (cases "pos = 0 \<or> pos = fragmentSize cs")
  case True
  then show ?thesis by (auto simp: findIndex_def)
next
  case False
  with assms have "0 < pos" "pos \<le> 0 + fragmentSize cs" by simp_all
  from findIndex_loop_ok [OF this, of 0] False assms show ?thesis
    by (auto simp: findIndex_def)
qed

lemma resolve_path_ok:
  "parentOff \<le> fragmentSize (nodeContent node) \<Longrightarrow> \<exists>p. resolve_path node parentOff start = Inr p \<and> p \<noteq> []"
proof (induction node parentOff start rule: resolve_path.induct)
  case (1 node parentOff start)
  from findIndex_ok [OF "1.prems"] obtain i off where
    fi: "findIndex (nodeContent node) parentOff = Inr (i, off)" "off \<le> parentOff"
        "off < parentOff \<longrightarrow> i < length (nodeContent node) \<and> parentOff - off < nodeSize (nodeContent node ! i)"
    by blast
  show ?case
  proof (cases "off < parentOff")
    case False
    with fi have "resolve_step node parentOff start = Inr ((node, i, start + off), None)"
      by (simp add: resolve_step_def)
    then show ?thesis by (subst resolve_path.simps) simp
  next
    case True
    with fi have il: "i < length (nodeContent node)" and sz: "parentOff - off < nodeSize (nodeContent node ! i)"
      by auto
    define c where "c = nodeContent node ! i"
    have ch: "child node i = Inr c" using il by (simp add: child_def c_def)
    show ?thesis
    proof (cases "isText c")
      case True
      with fi ch \<open>off < parentOff\<close> have "resolve_step node parentOff start = Inr ((node, i, start + off), None)"
        by (simp add: resolve_step_def Let_def)
      then show ?thesis by (subst resolve_path.simps) simp
    next
      case False
      with fi ch \<open>off < parentOff\<close> have st: "resolve_step node parentOff start =
          Inr ((node, i, start + off), Some (c, parentOff - off - 1, start + off + 1))"
        by (simp add: resolve_step_def Let_def)
      have "parentOff - off - 1 \<le> fragmentSize (nodeContent c)"
      proof (cases c)
        case (Text s)
        with False show ?thesis by simp
      next
        case (Leaf t)
        with sz \<open>off < parentOff\<close> show ?thesis by (simp add: c_def)
      next
        case (Node t a cs)
        with sz show ?thesis by (simp add: c_def fragmentSize_def)
      qed
      from "1.IH" [OF st refl refl refl refl this] obtain p where
        "resolve_path c (parentOff - off - 1) (start + off + 1) = Inr p" by blast
      with st show ?thesis by (subst resolve_path.simps) simp
    qed
  qed
qed

lemma resolve_total:
  "0 \<le> pos \<Longrightarrow> pos \<le> int (fragmentSize (nodeContent d)) \<Longrightarrow> \<exists>rp. resolve d pos = Inr rp"
proof -
  assume "0 \<le> pos" "pos \<le> int (fragmentSize (nodeContent d))"
  then have "nat pos \<le> fragmentSize (nodeContent d)" by simp
  from resolve_path_ok [OF this, of 0] obtain p where "resolve_path d (nat pos) 0 = Inr p" by blast
  with \<open>0 \<le> pos\<close> \<open>pos \<le> int (fragmentSize (nodeContent d))\<close> show ?thesis
    by (simp add: resolve_def)
qed

section \<open>The insertion command: merging into a gallery and creating one\<close>

lemma setAttachment_unfold:
  assumes cur: "resolve (doc st) (anchor (sel st)) = Inr cur"
    and nb: "resolve (doc st) (before_pos st) = Inr nb"
    and c: "in_gallery_strict cur = Inr c"
  shows "setAttachment opts st tr d =
     (case (if c \<or> in_gallery_guarded nb
            then insert_nodes (doc st) (int (end_pos cur) - (if c then 0 else 2))
                   (map create_figure (attachments_of opts)) tr
            else (case replaceWith (doc st) (sel_from (sel st) - 1) (sel_to (sel st))
                        [create_paragraph, create_gallery (map create_figure (attachments_of opts)),
                         create_paragraph] tr of
                    Inl e \<Rightarrow> Inl e
                  | Inr tr' \<Rightarrow>
                      Inr (selectionToInsertionEnd tr' (int (length (steps tr')) - 1) (- 1)))) of
        Inl e \<Rightarrow> Inl e
      | Inr tr' \<Rightarrow> Inr (True, tr', if d then Some tr' else None))"
  using cur nb c
  by (simp add: setAttachment_def Let_def before_pos_def)

lemma current_check_resolves:
  assumes "isInGalleryCurrent st = Inr c"
  obtains cur where "resolve (doc st) (anchor (sel st)) = Inr cur" "in_gallery_strict cur = Inr c"
  using assms by (auto simp: isInGalleryCurrent_def split: sum.splits)

lemma resolve_in_doc: "resolve d pos = Inr rp \<Longrightarrow> in_doc d pos"
  by (simp add: resolve_def in_doc_def split: if_splits)

lemma before_in_doc: "in_doc (doc st) (anchor (sel st)) \<Longrightarrow> in_doc (doc st) (before_pos st)"
  by (auto simp: in_doc_def before_pos_def)

lemma setAttachment_gallery_current:
  assumes "isInGalleryCurrent st = Inr True"
  shows "setAttachment opts st tr d =
     (case insert_nodes (doc st) (current_end st) (map create_figure (attachments_of opts)) tr of
        Inl e \<Rightarrow> Inl e
      | Inr tr' \<Rightarrow> Inr (True, tr', if d then Some tr' else None))"
proof -
  from assms obtain cur where cur: "resolve (doc st) (anchor (sel st)) = Inr cur"
    "in_gallery_strict cur = Inr True" by (rule current_check_resolves)
  from before_in_doc [OF resolve_in_doc [OF cur(1)]] obtain nb where
    nb: "resolve (doc st) (before_pos st) = Inr nb"
    using resolve_total by (auto simp: in_doc_def)
  show ?thesis
    using setAttachment_unfold [OF cur(1) nb cur(2), of opts tr d] cur(1)
    by (simp add: current_end_def)
qed

lemma setAttachment_gallery_after:
  assumes "isInGalleryCurrent st = Inr False" "isInGalleryAfter st"
  shows "setAttachment opts st tr d =
     (case insert_nodes (doc st) (current_end st - 2) (map create_figure (attachments_of opts)) tr of
        Inl e \<Rightarrow> Inl e
      | Inr tr' \<Rightarrow> Inr (True, tr', if d then Some tr' else None))"
proof -
  from assms(1) obtain cur where cur: "resolve (doc st) (anchor (sel st)) = Inr cur"
    "in_gallery_strict cur = Inr False" by (rule current_check_resolves)
  from before_in_doc [OF resolve_in_doc [OF cur(1)]] obtain nb where
    nb: "resolve (doc st) (before_pos st) = Inr nb"
    using resolve_total by (auto simp: in_doc_def)
  with assms(2) have "in_gallery_guarded nb" by (simp add: isInGalleryAfter_def)
  then show ?thesis
    using setAttachment_unfold [OF cur(1) nb cur(2), of opts tr d] cur(1)
    by (simp add: current_end_def)
qed

lemma replaceWith_in_doc:
  assumes "in_doc d f" "in_doc d t" "nodes \<noteq> [] \<and> fragmentSize nodes \<noteq> 0"
  shows "replaceWith d f t nodes tr = Inr (tr\<lparr>steps := steps tr @ [ReplaceStep f t nodes]\<rparr>)"
proof -
  from assms obtain rf rt where "resolve d f = Inr rf" "resolve d t = Inr rt"
    using resolve_total by (auto simp: in_doc_def) blast
  with assms(3) show ?thesis by (simp add: replaceWith_def)
qed

lemma depth_one_pos:
  assumes "resolve d pos = Inr rp" "node_at_depth rp 1 = Some n"
  shows "1 \<le> pos"
proof (rule ccontr)
  assume "\<not> 1 \<le> pos"
  with assms(1) have "pos = 0" by (simp add: resolve_def split: if_splits)
  have "resolve_step d 0 0 = Inr ((d, 0, 0), None)"
    by (simp add: resolve_step_def findIndex_def)
  then have "resolve_path d 0 0 = Inr [(d, 0, 0)]"
    by (subst resolve_path.simps) simp
  with assms(1) \<open>pos = 0\<close> have "path rp = [(d, 0, 0)]"
    by (auto simp: resolve_def split: if_splits)
  with assms(2) show False by (simp add: node_at_depth_def)
qed

lemma new_gallery_size:
  "fragmentSize [create_paragraph, create_gallery nodes, create_paragraph] = 6 + fragmentSize nodes"
  by (simp add: fragmentSize_def create_paragraph_def create_gallery_def)

lemma new_gallery_edit:
  assumes "isInGalleryCurrent st = Inr False" "\<not> isInGalleryAfter st"
    and "1 \<le> head (sel st)" "in_doc (doc st) (head (sel st))"
  shows "setAttachment opts st tr dispatch =
     (let inserted = [create_paragraph, create_gallery (map create_figure (attachments_of opts)),
                      create_paragraph];
          tr' = \<lparr>steps = steps tr @ [ReplaceStep (sel_from (sel st) - 1) (sel_to (sel st)) inserted],
                 cursor = Some (sel_from (sel st) - 1 + int (fragmentSize inserted), - 1)\<rparr>
      in Inr (True, tr', if dispatch then Some tr' else None))"
proof -
  from assms(1) obtain cur where cur: "resolve (doc st) (anchor (sel st)) = Inr cur"
    "in_gallery_strict cur = Inr False" by (rule current_check_resolves)
  have ina: "in_doc (doc st) (anchor (sel st))" by (rule resolve_in_doc [OF cur(1)])
  from before_in_doc [OF ina] obtain nb where
    nb: "resolve (doc st) (before_pos st) = Inr nb"
    using resolve_total by (auto simp: in_doc_def)
  with assms(2) have nng: "\<not> in_gallery_guarded nb" by (simp add: isInGalleryAfter_def)
  from cur(2) obtain n where "node_at_depth cur 1 = Some n"
    by (auto simp: in_gallery_strict_def split: option.splits)
  from depth_one_pos [OF cur(1) this] have a1: "1 \<le> anchor (sel st)" .
  define inserted where "inserted = [create_paragraph,
     create_gallery (map create_figure (attachments_of opts)), create_paragraph]"
  have f: "in_doc (doc st) (sel_from (sel st) - 1)"
    using ina assms(3,4) a1 by (auto simp: in_doc_def sel_from_def min_def)
  have t: "in_doc (doc st) (sel_to (sel st))"
    using ina assms(4) by (auto simp: in_doc_def sel_to_def max_def)
  have ne: "inserted \<noteq> [] \<and> fragmentSize inserted \<noteq> 0"
    by (simp add: inserted_def new_gallery_size)
  have rw: "replaceWith (doc st) (sel_from (sel st) - 1) (sel_to (sel st)) inserted tr =
     Inr (tr\<lparr>steps := steps tr @ [ReplaceStep (sel_from (sel st) - 1) (sel_to (sel st)) inserted]\<rparr>)"
    by (rule replaceWith_in_doc [OF f t ne])
  have se: "selectionToInsertionEnd
      (tr\<lparr>steps := steps tr @ [ReplaceStep (sel_from (sel st) - 1) (sel_to (sel st)) inserted]\<rparr>)
      (int (length (steps tr @ [ReplaceStep (sel_from (sel st) - 1) (sel_to (sel st)) inserted])) - 1) (- 1) =
     \<lparr>steps = steps tr @ [ReplaceStep (sel_from (sel st) - 1) (sel_to (sel st)) inserted],
      cursor = Some (sel_from (sel st) - 1 + int (fragmentSize inserted), - 1)\<rparr>"
    by (simp add: selectionToInsertionEnd_def Let_def nth_append)
  show ?thesis
    using setAttachment_unfold [OF cur(1) nb cur(2), of opts tr dispatch] nng rw se
    by (simp add: inserted_def [symmetric] Let_def)
qed

lemma setAttachment_raises:
  assumes "isInGalleryCurrent st = Inl e"
  shows "setAttachment opts st tr d = Inl e"
proof (cases "resolve (doc st) (anchor (sel st))")
  case (Inl e')
  with assms show ?thesis by (simp add: isInGalleryCurrent_def setAttachment_def)
next
  case (Inr cur)
  from before_in_doc [OF resolve_in_doc [OF Inr]] obtain nb where
    nb: "resolve (doc st) (before_pos st) = Inr nb"
    using resolve_total by (auto simp: in_doc_def)
  from assms Inr have "in_gallery_strict cur = Inl e" by (simp add: isInGalleryCurrent_def)
  with Inr nb show ?thesis by (simp add: setAttachment_def Let_def before_pos_def)
qed

lemma insert_nothing: "insert_nodes d pos [] tr = Inr tr"
  by (simp add: insert_nodes_def replaceWith_def fragmentSize_def)

text \<open>
  Claim C2 at a cursor that sits between top-level blocks, directly after a gallery
  (a gap cursor, or the start of a node selection). Two positions before it lies
  inside the gallery, so the second adjacency check holds and the claim asks for an
  insertion into the gallery; the command raises a type error instead, because the
  first check reads the type of an ancestor that does not exist.
\<close>

theorem setAttachment_after_gallery_top_level:
  "isInGalleryAfter (cursor_at doc_one_gallery 4)
   \<and> setAttachment opts (cursor_at doc_one_gallery 4) tr dispatch = Inl TypeError"
proof
  show "isInGalleryAfter (cursor_at doc_one_gallery 4)" by code_simp
  have "isInGalleryCurrent (cursor_at doc_one_gallery 4) = Inl TypeError" by code_simp
  then show "setAttachment opts (cursor_at doc_one_gallery 4) tr dispatch = Inl TypeError"
    by (rule setAttachment_raises)
qed

text \<open>
  Claim C10 at a selection of the whole document (anchor 0): the command raises a type
  error and returns nothing.
\<close>

theorem setAttachment_select_all_raises:
  "setAttachment opts \<lparr>doc = doc_text_paragraph, sel = \<lparr>anchor = 0, head = 4\<rparr>\<rparr> tr dispatch
     = Inl TypeError"
proof -
  have "isInGalleryCurrent \<lparr>doc = doc_text_paragraph, sel = \<lparr>anchor = 0, head = 4\<rparr>\<rparr>
          = Inl TypeError"
    by code_simp
  then show ?thesis by (rule setAttachment_raises)
qed

text \<open>Whenever the command returns, it returns true, and \<open>dispatch\<close> receives the
  transaction exactly when it is given.\<close>

lemma setAttachment_returns_true:
  "setAttachment opts st tr d = Inr (b, tr', dispatched) \<Longrightarrow> b \<and> (dispatched = (if d then Some tr' else None))"
  by (auto simp: setAttachment_def Let_def split: sum.splits if_splits)

lemma at_block_start_pos:
  assumes "at_block_start d pos"
  shows "1 \<le> pos" "in_doc d pos"
proof -
  from assms obtain rp where rp: "resolve d pos = Inr rp" "1 \<le> depth rp"
    by (auto simp: at_block_start_def split: sum.splits)
  then have "node_at_depth rp 1 = Some (fst (path rp ! 1))"
    by (simp add: node_at_depth_def depth_def)
  from depth_one_pos [OF rp(1) this] show "1 \<le> pos" .
  from rp(1) show "in_doc d pos" by (rule resolve_in_doc)
qed

text \<open>
  At a cursor behind text the same edit starts one position before the cursor, inside
  the text: the step requests the replacement of the character in front of the cursor.
\<close>

lemma setAttachment_behind_text:
  "steps_of (setAttachment (Single default_attrs) (cursor_at doc_text_paragraph 3)
       empty_transaction True) =
     [ReplaceStep 2 3
        [create_paragraph, create_gallery [create_figure default_attrs], create_paragraph]]"
  by code_simp

text \<open>
  Claim C3, as the code has it. When the cursor lies inside a top-level block, neither
  adjacency check holds, the selection starts at the start of the content of its block
  and ends within the document, the command records one step. The step replaces the
  range from the position in front of that block (one before the selection start) to
  the selection end by an empty paragraph, a gallery, and an empty paragraph. The
  children of the gallery are the figures of the inputs in their order: one figure for
  a single input, one per element for an array; each figure carries the attributes of
  its input and, when the caption is not empty, the caption as its text. The command
  then calls \<^verbatim>\<open>selectionToInsertionEnd\<close> on the transaction with the index of this
  step and bias -1, returns true, and hands the transaction to \<open>dispatch\<close> when one is
  given.
\<close>

theorem setAttachment_new_gallery:
  assumes "isInGalleryCurrent st = Inr False" "\<not> isInGalleryAfter st"
    and "at_block_start (doc st) (sel_from (sel st))" "in_doc (doc st) (sel_to (sel st))"
  shows "setAttachment opts st tr dispatch =
     (let figures =
            map (\<lambda>x. Node ''attachment-figure'' (FigureAttrs x)
                       (if caption x \<noteq> [] then [Text (caption x)] else []))
              (case opts of Single x \<Rightarrow> [x] | Many xs \<Rightarrow> xs);
          step = ReplaceStep (sel_from (sel st) - 1) (sel_to (sel st))
                   [Node ''paragraph'' NoAttrs [],
                    Node ''attachment-gallery'' NoAttrs figures,
                    Node ''paragraph'' NoAttrs []];
          tr' = selectionToInsertionEnd (tr\<lparr>steps := steps tr @ [step]\<rparr>)
                  (int (length (steps tr))) (- 1)
      in Inr (True, tr', if dispatch then Some tr' else None))"
proof -
  have h1: "1 \<le> head (sel st)"
    using at_block_start_pos(1) [OF assms(3)] by (simp add: sel_from_def)
  have h2: "in_doc (doc st) (head (sel st))"
    using h1 assms(4) by (simp add: in_doc_def sel_to_def)
  have figs: "map create_figure (attachments_of opts) =
      map (\<lambda>x. Node ''attachment-figure'' (FigureAttrs x)
                 (if caption x \<noteq> [] then [Text (caption x)] else []))
        (case opts of Single x \<Rightarrow> [x] | Many xs \<Rightarrow> xs)"
    by (cases opts) (simp_all add: attachments_of_def create_figure_def)
  define step where "step = ReplaceStep (sel_from (sel st) - 1) (sel_to (sel st))
      [create_paragraph, create_gallery (map create_figure (attachments_of opts)),
       create_paragraph]"
  have se: "selectionToInsertionEnd (tr\<lparr>steps := steps tr @ [step]\<rparr>)
              (int (length (steps tr))) (- 1) =
     \<lparr>steps = steps tr @ [step],
      cursor = Some (sel_from (sel st) - 1 +
                 int (fragmentSize [create_paragraph,
                        create_gallery (map create_figure (attachments_of opts)),
                        create_paragraph]), - 1)\<rparr>"
    by (simp add: selectionToInsertionEnd_def Let_def nth_append step_def)
  have "setAttachment opts st tr dispatch =
      Inr (True,
           selectionToInsertionEnd (tr\<lparr>steps := steps tr @ [step]\<rparr>)
             (int (length (steps tr))) (- 1),
           if dispatch
           then Some (selectionToInsertionEnd (tr\<lparr>steps := steps tr @ [step]\<rparr>)
                        (int (length (steps tr))) (- 1))
           else None)"
    unfolding se using new_gallery_edit [OF assms(1,2) h1 h2, of opts tr dispatch]
    by (simp add: Let_def step_def)
  then show ?thesis
    by (simp add: Let_def step_def figs create_paragraph_def create_gallery_def)
qed

text \<open>
  Two runs of the new-gallery edit in the document of two paragraphs. With the text of
  the second paragraph selected backwards (anchor 10, head 8), two inputs and a
  transaction that holds a step already, the range 7 to 10 is replaced, the gallery
  holds the captioned figure and then the plain one, and the helper is called for step
  1. With a single input at the cursor 8 and no \<open>dispatch\<close>, the range 7 to 8 is
  replaced and nothing is dispatched.
\<close>

theorem setAttachment_new_gallery_witness:
  "setAttachment (Many [captioned_attrs, plain_attrs])
       \<lparr>doc = doc_two_paragraphs, sel = \<lparr>anchor = 10, head = 8\<rparr>\<rparr> busy_transaction True =
     Inr (True,
          selectionToInsertionEnd
            \<lparr>steps = [ReplaceStep 1 1 [Text ''x''],
                      ReplaceStep 7 10
                        [Node ''paragraph'' NoAttrs [],
                         Node ''attachment-gallery'' NoAttrs
                           [Node ''attachment-figure'' (FigureAttrs captioned_attrs) [Text ''one''],
                            Node ''attachment-figure'' (FigureAttrs plain_attrs) []],
                         Node ''paragraph'' NoAttrs []]],
             cursor = Some (2, 1)\<rparr> 1 (- 1),
          Some (selectionToInsertionEnd
            \<lparr>steps = [ReplaceStep 1 1 [Text ''x''],
                      ReplaceStep 7 10
                        [Node ''paragraph'' NoAttrs [],
                         Node ''attachment-gallery'' NoAttrs
                           [Node ''attachment-figure'' (FigureAttrs captioned_attrs) [Text ''one''],
                            Node ''attachment-figure'' (FigureAttrs plain_attrs) []],
                         Node ''paragraph'' NoAttrs []]],
             cursor = Some (2, 1)\<rparr> 1 (- 1)))
   \<and> setAttachment (Single plain_attrs) (cursor_at doc_two_paragraphs 8) empty_transaction False =
     Inr (True,
          selectionToInsertionEnd
            \<lparr>steps = [ReplaceStep 7 8
                        [Node ''paragraph'' NoAttrs [],
                         Node ''attachment-gallery'' NoAttrs
                           [Node ''attachment-figure'' (FigureAttrs plain_attrs) []],
                         Node ''paragraph'' NoAttrs []]],
             cursor = None\<rparr> 0 (- 1),
          None)"
proof -
  let ?s1 = "\<lparr>doc = doc_two_paragraphs, sel = \<lparr>anchor = 10, head = 8\<rparr>\<rparr>"
  let ?s2 = "cursor_at doc_two_paragraphs 8"
  have a1: "isInGalleryCurrent ?s1 = Inr False" by code_simp
  have b1: "\<not> isInGalleryAfter ?s1" by code_simp
  have c1: "at_block_start (doc ?s1) (sel_from (sel ?s1))" by code_simp
  have d1: "in_doc (doc ?s1) (sel_to (sel ?s1))" by code_simp
  have a2: "isInGalleryCurrent ?s2 = Inr False" by code_simp
  have b2: "\<not> isInGalleryAfter ?s2" by code_simp
  have c2: "at_block_start (doc ?s2) (sel_from (sel ?s2))" by code_simp
  have d2: "in_doc (doc ?s2) (sel_to (sel ?s2))" by code_simp
  have cap: "caption captioned_attrs = ''one''" "caption plain_attrs = []"
    by (simp_all add: captioned_attrs_def plain_attrs_def default_attrs_def)
  show ?thesis
    using setAttachment_new_gallery [OF a1 b1 c1 d1, of "Many [captioned_attrs, plain_attrs]"
        busy_transaction True]
      setAttachment_new_gallery [OF a2 b2 c2 d2, of "Single plain_attrs" empty_transaction False]
    by (simp add: Let_def cap busy_transaction_def empty_transaction_def cursor_at_def
        sel_from_def sel_to_def)
qed

text \<open>
  Claim C3 as worded has the selection range itself replaced. At a cursor in an empty
  paragraph (selection 1 to 1) the recorded step starts at 0.
\<close>

theorem setAttachment_selection_range_counterexample:
  "isInGalleryCurrent (cursor_at doc_empty_paragraph 1) = Inr False
   \<and> \<not> isInGalleryAfter (cursor_at doc_empty_paragraph 1)
   \<and> steps_of (setAttachment (Single default_attrs) (cursor_at doc_empty_paragraph 1)
         empty_transaction True)
       \<noteq> [spec_new_gallery_step (cursor_at doc_empty_paragraph 1) (Single default_attrs)]"
  by code_simp

text \<open>
  Claim C9, as the code has it. For an empty input sequence and a cursor inside a
  top-level block, nothing checks the input: when an adjacency check holds the command
  inserts nothing and leaves the transaction as it was; otherwise it records the
  replacement by an empty paragraph, a gallery without children and an empty
  paragraph. In both cases it returns true.
\<close>

theorem setAttachment_empty_input:
  assumes "isInGalleryCurrent st = Inr c"
    and "1 \<le> head (sel st)" "in_doc (doc st) (head (sel st))"
  shows "setAttachment (Many []) st tr dispatch =
     (if c \<or> isInGalleryAfter st then Inr (True, tr, if dispatch then Some tr else None)
      else (let inserted = [create_paragraph, create_gallery [], create_paragraph];
                tr' = \<lparr>steps = steps tr @
                          [ReplaceStep (sel_from (sel st) - 1) (sel_to (sel st)) inserted],
                       cursor = Some (sel_from (sel st) - 1 + 6, - 1)\<rparr>
            in Inr (True, tr', if dispatch then Some tr' else None)))"
proof (cases "c \<or> isInGalleryAfter st")
  case True
  have "setAttachment (Many []) st tr dispatch = Inr (True, tr, if dispatch then Some tr else None)"
  proof (cases c)
    case True
    with assms(1) have "isInGalleryCurrent st = Inr True" by simp
    from setAttachment_gallery_current [OF this, of "Many []" tr dispatch] show ?thesis
      by (simp add: attachments_of_def insert_nothing)
  next
    case False
    with assms(1) \<open>c \<or> isInGalleryAfter st\<close>
    have "isInGalleryCurrent st = Inr False" "isInGalleryAfter st" by simp_all
    from setAttachment_gallery_after [OF this, of "Many []" tr dispatch] show ?thesis
      by (simp add: attachments_of_def insert_nothing)
  qed
  with True show ?thesis by simp
next
  case False
  with assms(1) have "isInGalleryCurrent st = Inr False" "\<not> isInGalleryAfter st" by auto
  have "fragmentSize [create_paragraph, create_gallery [], create_paragraph] = 6"
    by (simp add: new_gallery_size) (simp add: fragmentSize_def)
  with new_gallery_edit [OF \<open>isInGalleryCurrent st = Inr False\<close> \<open>\<not> isInGalleryAfter st\<close>
      assms(2,3), of "Many []" tr dispatch] False
  show ?thesis
    by (simp add: attachments_of_def Let_def)
qed

text \<open>
  The empty input at a cursor inside a gallery and at a cursor in an empty paragraph.
\<close>

theorem setAttachment_empty_input_witness:
  "setAttachment (Many []) (cursor_at doc_one_gallery 2) empty_transaction True =
     Inr (True, empty_transaction, Some empty_transaction)
   \<and> setAttachment (Many []) (cursor_at doc_empty_paragraph 1) empty_transaction False =
     Inr (True,
          \<lparr>steps = [ReplaceStep 0 1 [create_paragraph, create_gallery [], create_paragraph]],
           cursor = Some (6, - 1)\<rparr>, None)"
proof -
  have a: "isInGalleryCurrent (cursor_at doc_one_gallery 2) = Inr True" by code_simp
  have b: "isInGalleryCurrent (cursor_at doc_empty_paragraph 1) = Inr False" by code_simp
  have nb: "\<not> isInGalleryAfter (cursor_at doc_empty_paragraph 1)" by code_simp
  have c: "1 \<le> head (sel (cursor_at d 2))" "1 \<le> head (sel (cursor_at d 1))" for d
    by (simp_all add: cursor_at_def)
  have d: "in_doc (doc (cursor_at doc_one_gallery 2)) (head (sel (cursor_at doc_one_gallery 2)))"
     "in_doc (doc (cursor_at doc_empty_paragraph 1)) (head (sel (cursor_at doc_empty_paragraph 1)))"
    by code_simp+
  show ?thesis
    using setAttachment_empty_input [OF a c(1) d(1), of empty_transaction True]
      setAttachment_empty_input [OF b c(2) d(2), of empty_transaction False] nb
    by (simp add: Let_def empty_transaction_def cursor_at_def sel_from_def sel_to_def)
qed

text \<open>
  Claim C9 as worded has every empty insertion produce a gallery without children.
  Inside an existing gallery no step is recorded at all.
\<close>

theorem setAttachment_empty_input_counterexample:
  "\<not> produces_empty_gallery
       (setAttachment (Many []) (cursor_at doc_one_gallery 2) empty_transaction True)"
  by code_simp

section \<open>Reading back what \<^verbatim>\<open>JSON.stringify\<close> wrote\<close>

lemma unhex_hex_digit: "k < 16 \<Longrightarrow> unhex (hex_digit k) = Some k"
proof -
  assume "k < 16"
  then have n: "(of_char (hex_digit k) :: nat) = (if k < 10 then 48 + k else 87 + k)"
    by (simp add: hex_digit_def)
  from \<open>k < 16\<close> show ?thesis
    unfolding unhex_def n by (simp add: Let_def)
qed

lemma unhex_zero: "unhex (CHR ''0'') = Some 0"
  by (simp add: unhex_def)

lemma control_escape:
  assumes "(of_char c :: nat) < 32"
  shows "unicode_escape [CHR ''0'', CHR ''0'', hex_digit (of_char c div 16), hex_digit (of_char c mod 16)]
           = Some c"
proof -
  let ?n = "of_char c :: nat"
  have a: "unhex (hex_digit (?n div 16)) = Some (?n div 16)"
    using assms by (intro unhex_hex_digit) simp
  have b: "unhex (hex_digit (?n mod 16)) = Some (?n mod 16)"
    by (intro unhex_hex_digit) simp
  have "char_of (16 * (?n div 16) + ?n mod 16) = c" by simp
  with a b show ?thesis by (simp add: unicode_escape_def unhex_zero)
qed

lemma char_of_code: "(of_char c :: nat) = n \<Longrightarrow> c = char_of n"
  by auto

lemma parse_chars_escape_char:
  "parse_chars (escape_char c @ t) = map_option (\<lambda>(s, r). (c # s, r)) (parse_chars t)"
proof -
  let ?n = "of_char c :: nat"
  consider (quote) "c = CHR 0x22" | (bs) "c = CHR 0x5C"
    | (b) "?n = 8" | (f) "?n = 12" | (n) "?n = 10" | (r) "?n = 13" | (t) "?n = 9"
    | (ctl) "?n < 32" "?n \<noteq> 8" "?n \<noteq> 12" "?n \<noteq> 10" "?n \<noteq> 13" "?n \<noteq> 9"
    | (plain) "c \<noteq> CHR 0x22" "c \<noteq> CHR 0x5C" "\<not> ?n < 32"
    by fastforce
  then show ?thesis
  proof cases
    case quote
    then show ?thesis by (simp add: escape_char_def simple_escape_def)
  next
    case bs
    then show ?thesis by (simp add: escape_char_def simple_escape_def)
  next
    case b
    then have "c = char_of (8::nat)" by (rule char_of_code)
    then show ?thesis by (simp add: escape_char_def simple_escape_def)
  next
    case f
    then have "c = char_of (12::nat)" by (rule char_of_code)
    then show ?thesis by (simp add: escape_char_def simple_escape_def)
  next
    case n
    then have "c = char_of (10::nat)" by (rule char_of_code)
    then show ?thesis by (simp add: escape_char_def simple_escape_def)
  next
    case r
    then have "c = char_of (13::nat)" by (rule char_of_code)
    then show ?thesis by (simp add: escape_char_def simple_escape_def)
  next
    case t
    then have "c = char_of (9::nat)" by (rule char_of_code)
    then show ?thesis by (simp add: escape_char_def simple_escape_def)
  next
    case ctl
    then have ne: "c \<noteq> CHR 0x22" "c \<noteq> CHR 0x5C" by auto
    from ctl ne have e: "escape_char c =
       [CHR 0x5C, CHR ''u'', CHR ''0'', CHR ''0'', hex_digit (?n div 16), hex_digit (?n mod 16)]"
      by (simp add: escape_char_def Let_def)
    show ?thesis
      unfolding e using control_escape [OF ctl(1)] by simp
  next
    case plain
    then have ne: "?n \<noteq> 8" "?n \<noteq> 12" "?n \<noteq> 10" "?n \<noteq> 13" "?n \<noteq> 9" by auto
    with plain have "escape_char c = [c]" by (simp add: escape_char_def Let_def)
    with plain show ?thesis by simp
  qed
qed

lemma parse_chars_escaped:
  "parse_chars (concat (map escape_char s) @ CHR 0x22 # rest) = Some (s, rest)"
  by (induction s) (simp_all add: parse_chars_escape_char)

lemma parse_string_quote: "parse_string (quote s @ rest) = Some (s, rest)"
  using parse_chars_escaped [of s rest] by (simp add: parse_string_def quote_def)

lemma delimited_not_digit: "delimited rest \<Longrightarrow> takeWhile is_digit rest = [] \<and> dropWhile is_digit rest = rest"
  by (cases rest) (auto simp: delimited_def is_digit_def)

lemma is_digit_char_of: "d < 10 \<Longrightarrow> is_digit (char_of (48 + (d::nat)))"
  by (simp add: is_digit_def)

lemma digits_all: "\<forall>c \<in> set (digits n). is_digit c"
proof (induction n rule: digits.induct)
  case (1 n)
  show ?case
  proof (cases "n < 10")
    case True
    then show ?thesis by (subst digits.simps) (simp add: is_digit_char_of)
  next
    case False
    have "is_digit (char_of (48 + n mod 10))" by (rule is_digit_char_of) simp
    with False "1.IH" show ?thesis by (subst digits.simps) simp
  qed
qed

lemma digits_nonempty: "digits n \<noteq> []"
  by (subst digits.simps) simp

lemma digits_value_snoc: "digits_value (ds @ [c]) = 10 * digits_value ds + (of_char c - 48)"
  by (simp add: digits_value_def)

lemma digits_value_digits: "digits_value (digits n) = n"
proof (induction n rule: digits.induct)
  case (1 n)
  show ?case
  proof (cases "n < 10")
    case True
    then show ?thesis by (subst digits.simps) (simp add: digits_value_def)
  next
    case False
    have "(of_char (char_of (48 + n mod 10) :: char) :: nat) = 48 + n mod 10" by simp
    with False "1.IH" show ?thesis
      by (subst digits.simps) (simp add: digits_value_snoc)
  qed
qed

lemma digits_no_leading_zero: "length (digits n) > 1 \<Longrightarrow> hd (digits n) \<noteq> CHR ''0''"
proof (induction n rule: digits.induct)
  case (1 n)
  show ?case
  proof (cases "n < 10")
    case True
    with "1.prems" show ?thesis by (subst (asm) digits.simps) simp
  next
    case False
    then have d: "digits n = digits (n div 10) @ [char_of (48 + n mod 10)]"
      by (subst digits.simps) simp
    have hd: "hd (digits n) = hd (digits (n div 10))"
      unfolding d using digits_nonempty [of "n div 10"] by simp
    show ?thesis
    proof (cases "n div 10 < 10")
      case True
      then have "digits (n div 10) = [char_of (48 + n div 10)]" by (subst digits.simps) simp
      moreover from False have "n div 10 \<noteq> 0" by simp
      moreover have "(of_char (char_of (48 + n div 10) :: char) :: nat) = 48 + n div 10"
        using True by simp
      ultimately have "(of_char (hd (digits (n div 10))) :: nat) \<noteq> 48" by simp
      then show ?thesis unfolding hd by auto
    next
      case nd: False
      then have "length (digits (n div 10)) > 1"
        using digits_nonempty [of "n div 10 div 10"] by (subst digits.simps) simp
      from "1.IH" [OF False this] show ?thesis unfolding hd .
    qed
  qed
qed

lemma parse_number_digits:
  assumes "delimited rest"
  shows "parse_number (digits n @ rest) = Some (n, rest)"
proof -
  have tw: "takeWhile is_digit (digits n @ rest) = digits n"
    using digits_all [of n] delimited_not_digit [OF assms] by (simp add: takeWhile_append2)
  have dw: "dropWhile is_digit (digits n @ rest) = rest"
    using digits_all [of n] delimited_not_digit [OF assms] by (simp add: dropWhile_append2)
  show ?thesis
    using digits_no_leading_zero [of n] digits_nonempty [of n]
    by (auto simp: parse_number_def tw dw digits_value_digits Let_def)
qed

lemma digits_head: "\<exists>d ds. digits n = d # ds \<and> is_digit d"
  using digits_all [of n] digits_nonempty [of n] by (cases "digits n") auto

lemma parse_scalar_stringify:
  assumes "delimited rest"
  shows "parse_scalar (stringify_scalar v @ rest) = Some (v, rest)"
proof (cases v)
  case SNull
  then show ?thesis by (simp add: parse_scalar_def)
next
  case (SBool b)
  then show ?thesis by (simp add: parse_scalar_def)
next
  case (SNum n)
  obtain d ds where d: "digits n = d # ds" "is_digit d" using digits_head by blast
  then have "d \<noteq> CHR ''n''" "d \<noteq> CHR ''t''" "d \<noteq> CHR ''f''" "d \<noteq> CHR 0x22"
    by (auto simp: is_digit_def)
  then have "parse_scalar (digits n @ rest) = map_option (\<lambda>(n, r). (SNum n, r)) (parse_number (digits n @ rest))"
    by (simp add: parse_scalar_def d)
  with SNum parse_number_digits [OF assms, of n] show ?thesis by simp
next
  case (SStr s)
  have "parse_scalar (quote s @ rest) = map_option (\<lambda>(x, r). (SStr x, r)) (parse_string (quote s @ rest))"
    by (simp add: parse_scalar_def quote_def)
  with SStr parse_string_quote [of s rest] show ?thesis by simp
qed

lemma parse_member_stringify:
  assumes "delimited rest"
  shows "parse_member (stringify_member kv @ rest) = Some (kv, rest)"
proof -
  have "stringify_member kv @ rest = quote (fst kv) @ (CHR '':'' # stringify_scalar (snd kv) @ rest)"
    by (simp add: stringify_member_def)
  then show ?thesis
    using parse_string_quote [of "fst kv" "CHR '':'' # stringify_scalar (snd kv) @ rest"]
      parse_scalar_stringify [OF assms, of "snd kv"]
    by (simp add: parse_member_def)
qed

lemma parse_members_stringify:
  "parse_members (join_commas (map stringify_member (kv # kvs)) @ CHR ''}'' # rest) = Some (kv # kvs, rest)"
proof (induction kvs arbitrary: kv)
  case Nil
  have "delimited (CHR ''}'' # rest)" by (simp add: delimited_def)
  from parse_member_stringify [OF this, of kv] show ?case
    by (subst parse_members.simps) simp
next
  case (Cons kv' kvs)
  let ?tail = "join_commas (map stringify_member (kv' # kvs)) @ CHR ''}'' # rest"
  have "delimited (CHR '','' # ?tail)" by (simp add: delimited_def)
  from parse_member_stringify [OF this, of kv] Cons.IH [of kv'] show ?case
    by (subst parse_members.simps) simp
qed

lemma parse_fragment_stringify_object:
  "parse_fragment (JSON_stringify (JObject kvs)) = Some (JObject kvs)"
proof (cases kvs)
  case Nil
  then show ?thesis by (simp add: parse_fragment_def)
next
  case (Cons kv rest)
  have ne: "join_commas (map stringify_member (kv # rest)) @ ''}'' \<noteq> ''}''"
  proof (cases rest)
    case Nil
    then show ?thesis by (simp add: stringify_member_def quote_def)
  next
    case (Cons a list)
    then show ?thesis by (simp add: stringify_member_def quote_def)
  qed
  with Cons parse_members_stringify [of kv rest "[]"] show ?thesis
    by (simp add: parse_fragment_def)
qed

lemma JSON_parse_stringify_object:
  "JSON_parse (JSON_stringify (JObject kvs)) = Returns (JObject kvs)"
  by (simp add: JSON_parse_def parse_fragment_stringify_object del: JSON_stringify.simps)

lemma JSON_parse_empty: "JSON_parse [] = Raises SyntaxError"
  by (simp add: JSON_parse_def parse_fragment_def surely_malformed_def)

lemma JSON_parse_empty_object: "JSON_parse ''{}'' = Returns (JObject [])"
  by (simp add: JSON_parse_def parse_fragment_def)


section \<open>What the serializer emits\<close>

lemma stringify_object_nonempty: "JSON_stringify (JObject kvs) \<noteq> []"
  by simp

lemma figure_attrs_render:
  "figure_attrs (renderHTML a) =
     [(''class'', options_class @ '' '' @ figure_class a),
      (''data-trix-attributes'', presentation_text a),
      (''data-trix-content-type'', contentType a),
      (''data-trix-attachment'', blob_text a)]"
proof -
  have m: "mergeAttributes options_HTMLAttributes
       [(''class'', c), (''data-trix-content-type'', t), (''data-trix-attachment'', b),
        (''data-trix-attributes'', p)] =
     [(''class'', options_class @ '' '' @ c), (''data-trix-attributes'', p),
      (''data-trix-content-type'', t), (''data-trix-attachment'', b)]" for c t b p
    by (simp add: mergeAttributes_def merge_entry_def options_HTMLAttributes_def options_class_def
        del: JSON_stringify.simps)
  show ?thesis
    by (simp add: renderHTML_def Let_def m blob_text_def presentation_text_def
        del: JSON_stringify.simps)
qed

lemma figure_children_render:
  "figure_children (renderHTML a) =
     (if content a = [] then
        [Img [(''src'', if url a \<noteq> [] then url a else src a), (''contenteditable'', ''false''),
              (''width'', dim_text (width a)), (''height'', dim_text (height a))],
         Figcaption [(''class'', ''attachment__caption attachment__caption--edited'')]]
      else [Figcaption [(''class'', ''attachment__caption attachment__caption--edited'')]])"
  by (simp add: renderHTML_def Let_def mergeAttributes_def merge_entry_def
      del: JSON_stringify.simps)

section \<open>Parsing what the serializer emitted\<close>

lemma blob_parse: "JSON_parse (blob_text a) = Returns (JObject (attachmentAttrs a))"
  unfolding blob_text_def by (rule JSON_parse_stringify_object)

lemma blob_nonempty: "blob_text a \<noteq> []"
  unfolding blob_text_def by simp

lemma rendered_getAttribute:
  "getAttribute (rendered_element (renderHTML a) inner) k =
     map_of [(''class'', options_class @ '' '' @ figure_class a),
             (''data-trix-attributes'', presentation_text a),
             (''data-trix-content-type'', contentType a),
             (''data-trix-attachment'', blob_text a)] k"
  by (simp add: getAttribute_def rendered_element_def figure_attrs_render)

lemma rendered_wrapper: "el_wrapper (rendered_element (renderHTML a) inner) = None"
  by (simp add: rendered_element_def)

lemma rendered_findAttribute:
  "findAttribute (rendered_element (renderHTML a) inner) k =
     Returns (map_of (rev (attachmentAttrs a)) k)"
proof -
  have blob: "getAttribute (rendered_element (renderHTML a) inner) ''data-trix-attachment'' =
      Some (blob_text a)"
    by (simp add: rendered_getAttribute)
  show ?thesis
    by (simp add: findAttribute_def explicit_attribute_def rendered_wrapper blob blob_parse)
qed

lemma rendered_figcaption:
  "el_figcaption (rendered_element (renderHTML a) inner) = Some inner"
  by (simp add: rendered_element_def figure_children_render)

lemma rendered_blob_or:
  "blob_or (rendered_element (renderHTML a) inner) fb = blob_text a"
  by (simp add: blob_or_def rendered_getAttribute blob_nonempty)

lemma attachmentAttrs_lookup:
  "map_of (rev (attachmentAttrs a)) ''caption'' = Some (SStr (caption a))"
  "map_of (rev (attachmentAttrs a)) ''contentType'' = Some (SStr (contentType a))"
  "map_of (rev (attachmentAttrs a)) ''content'' = Some (SStr (content a))"
  "map_of (rev (attachmentAttrs a)) ''filename'' = Some (SStr (fileName a))"
  "map_of (rev (attachmentAttrs a)) ''filesize'' = Some (SStr (fileSize a))"
  "map_of (rev (attachmentAttrs a)) ''height'' = Some (dim_scalar (height a))"
  "map_of (rev (attachmentAttrs a)) ''width'' = Some (dim_scalar (width a))"
  "map_of (rev (attachmentAttrs a)) ''sgid'' = Some (SStr (sgid a))"
  "map_of (rev (attachmentAttrs a)) ''url'' = Some (SStr (url a))"
  "map_of (rev (attachmentAttrs a)) ''src'' = Some (SStr (src a))"
  "map_of (rev (attachmentAttrs a)) ''content-type'' = None"
  "map_of (rev (attachmentAttrs a)) ''previewable'' = None"
  by (simp_all add: attachmentAttrs_def)

lemma parse_rendered:
  "parse_element (rendered_element (renderHTML a) inner) =
     Returns ((attrs_values a)
            \<lparr>p_caption := Some (SStr (if inner \<noteq> [] then inner else caption a)),
             p_contentType :=
               Some (SStr (if contentType a = [] then ''application/octet-stream''
                           else contentType a)),
             p_previewable := None\<rparr>)"
proof -
  let ?el = "rendered_element (renderHTML a) inner"
  have blob: "getAttribute ?el ''data-trix-attachment'' = Some (blob_text a)"
    by (simp add: rendered_getAttribute)
  have ct: "parse_contentType ?el =
      Returns (Some (SStr (if contentType a = [] then ''application/octet-stream''
                           else contentType a)))"
    by (simp add: parse_contentType_def contentType_parseHTML_def rendered_findAttribute
        attachmentAttrs_lookup blob blob_parse parsed_prop_def get_prop_def js_or_def)
  have pv: "parse_previewable ?el = Returns None"
    by (simp add: parse_previewable_def rendered_blob_or blob_parse parsed_prop_def get_prop_def
        attachmentAttrs_lookup)
  have cap: "parse_caption ?el = Returns (Some (SStr (if inner \<noteq> [] then inner else caption a)))"
    by (simp add: parse_caption_def rendered_figcaption rendered_findAttribute
        attachmentAttrs_lookup js_string_def)
  have cont: "parse_content ?el = Returns (Some (SStr (content a)))"
    by (simp add: parse_content_def rendered_wrapper rendered_findAttribute
        attachmentAttrs_lookup js_or_def js_string_def)
  have rest: "parse_sgid ?el = Returns (Some (SStr (sgid a)))"
    "parse_src ?el = Returns (Some (SStr (src a)))"
    "parse_height ?el = Returns (Some (dim_scalar (height a)))"
    "parse_width ?el = Returns (Some (dim_scalar (width a)))"
    "parse_fileName ?el = Returns (Some (SStr (fileName a)))"
    "parse_fileSize ?el = Returns (Some (SStr (fileSize a)))"
    "parse_url ?el = Returns (Some (SStr (url a)))"
    by (simp_all add: parse_sgid_def parse_src_def parse_height_def parse_width_def
        parse_fileName_def parse_fileSize_def parse_url_def rendered_findAttribute
        attachmentAttrs_lookup)
  show ?thesis
    by (simp add: parse_element_def ct pv cap cont rest attrs_values_def)
qed

section \<open>Claims about serialization and parsing\<close>

text \<open>
  Claim C7, as the code has it. For every attribute set the serializer emits a figure
  with four attributes. The class is the configured class \<open>attachment\<close> joined with the
  computed class list (base class, type class, extension class).
  \<open>data-trix-attributes\<close> is the JSON text of the object with the members caption and
  presentation, the latter being \<open>gallery\<close>. \<open>data-trix-content-type\<close> is the content
  type. \<open>data-trix-attachment\<close> is the JSON text of the object with the ten members
  caption, contentType, content, filename, filesize, height, width, sgid, url and src,
  in this order, each holding the attribute of the node. The children are the image
  (source \<open>url\<close> or else \<open>src\<close>, not editable, width, height) and the caption element
  when the node has no embedded content, and the caption element alone when it has:
  the embedded content is not emitted as markup.
\<close>

theorem renderHTML_emits:
  "figure_attrs (renderHTML a) =
     [(''class'',
         ''attachment'' @ '' '' @
           (''attachment'' @ '' '' @
              toType (Some (content a)) (canPreview (previewable a) (Some (contentType a)))
              @ '' '' @ toExtension (Some (fileName a)))),
      (''data-trix-attributes'',
         JSON_stringify (JObject [(''caption'', SStr (caption a)),
                                  (''presentation'', SStr ''gallery'')])),
      (''data-trix-content-type'', contentType a),
      (''data-trix-attachment'',
         JSON_stringify (JObject
           [(''caption'', SStr (caption a)),
            (''contentType'', SStr (contentType a)),
            (''content'', SStr (content a)),
            (''filename'', SStr (fileName a)),
            (''filesize'', SStr (fileSize a)),
            (''height'', dim_scalar (height a)),
            (''width'', dim_scalar (width a)),
            (''sgid'', SStr (sgid a)),
            (''url'', SStr (url a)),
            (''src'', SStr (src a))]))]
   \<and> figure_children (renderHTML a) =
     (if content a = [] then
        [Img [(''src'', if url a \<noteq> [] then url a else src a), (''contenteditable'', ''false''),
              (''width'', dim_text (width a)), (''height'', dim_text (height a))],
         Figcaption [(''class'', ''attachment__caption attachment__caption--edited'')]]
      else [Figcaption [(''class'', ''attachment__caption attachment__caption--edited'')]])"
proof
  show "figure_attrs (renderHTML a) =
     [(''class'',
         ''attachment'' @ '' '' @
           (''attachment'' @ '' '' @
              toType (Some (content a)) (canPreview (previewable a) (Some (contentType a)))
              @ '' '' @ toExtension (Some (fileName a)))),
      (''data-trix-attributes'',
         JSON_stringify (JObject [(''caption'', SStr (caption a)),
                                  (''presentation'', SStr ''gallery'')])),
      (''data-trix-content-type'', contentType a),
      (''data-trix-attachment'',
         JSON_stringify (JObject
           [(''caption'', SStr (caption a)),
            (''contentType'', SStr (contentType a)),
            (''content'', SStr (content a)),
            (''filename'', SStr (fileName a)),
            (''filesize'', SStr (fileSize a)),
            (''height'', dim_scalar (height a)),
            (''width'', dim_scalar (width a)),
            (''sgid'', SStr (sgid a)),
            (''url'', SStr (url a)),
            (''src'', SStr (src a))]))]"
    by (simp add: figure_attrs_render options_class_def figure_class_def presentation_text_def
        blob_text_def attachmentAttrs_def del: JSON_stringify.simps)
  show "figure_children (renderHTML a) =
     (if content a = [] then
        [Img [(''src'', if url a \<noteq> [] then url a else src a), (''contenteditable'', ''false''),
              (''width'', dim_text (width a)), (''height'', dim_text (height a))],
         Figcaption [(''class'', ''attachment__caption attachment__caption--edited'')]]
      else [Figcaption [(''class'', ''attachment__caption attachment__caption--edited'')]])"
    by (rule figure_children_render)
qed

text \<open>
  The emitted figure of the sample attribute set, with both JSON texts written out:
  the ten members of the blob in order, an image of 12 by 8 and the caption element.
\<close>

theorem renderHTML_emits_witness:
  "figure_attrs (renderHTML sample_attrs) =
     [(''class'', ''attachment attachment attachment--preview attachment--jpg''),
      (''data-trix-attributes'',
         concat [''{'', in_quotes ''caption'', '':'', in_quotes ''hi'', '','',
                 in_quotes ''presentation'', '':'', in_quotes ''gallery'', ''}'']),
      (''data-trix-content-type'', ''image/png''),
      (''data-trix-attachment'',
         concat [''{'', in_quotes ''caption'', '':'', in_quotes ''hi'', '','',
                 in_quotes ''contentType'', '':'', in_quotes ''image/png'', '','',
                 in_quotes ''content'', '':'', in_quotes [], '','',
                 in_quotes ''filename'', '':'', in_quotes ''a.b.JPG'', '','',
                 in_quotes ''filesize'', '':'', in_quotes [], '','',
                 in_quotes ''height'', '':8,'',
                 in_quotes ''width'', '':12,'',
                 in_quotes ''sgid'', '':'', in_quotes [], '','',
                 in_quotes ''url'', '':'', in_quotes ''/blobs/1'', '','',
                 in_quotes ''src'', '':'', in_quotes [], ''}''])]
   \<and> figure_children (renderHTML sample_attrs) =
       [Img [(''src'', ''/blobs/1''), (''contenteditable'', ''false''), (''width'', ''12''),
             (''height'', ''8'')],
        Figcaption [(''class'', ''attachment__caption attachment__caption--edited'')]]"
proof -
  have t: "toType (Some (content sample_attrs))
             (canPreview (previewable sample_attrs) (Some (contentType sample_attrs))) =
           ''attachment--preview''"
    by code_simp
  have e: "toExtension (Some (fileName sample_attrs)) = ''attachment--jpg''" by code_simp
  have d: "digits 12 = ''12''" "digits 8 = ''8''" by code_simp+
  have p: "JSON_stringify (JObject [(''caption'', SStr (caption sample_attrs)),
                                  (''presentation'', SStr ''gallery'')]) =
      concat [''{'', in_quotes ''caption'', '':'', in_quotes ''hi'', '','',
              in_quotes ''presentation'', '':'', in_quotes ''gallery'', ''}'']"
    by code_simp
  have b: "JSON_stringify (JObject
           [(''caption'', SStr (caption sample_attrs)),
            (''contentType'', SStr (contentType sample_attrs)),
            (''content'', SStr (content sample_attrs)),
            (''filename'', SStr (fileName sample_attrs)),
            (''filesize'', SStr (fileSize sample_attrs)),
            (''height'', dim_scalar (height sample_attrs)),
            (''width'', dim_scalar (width sample_attrs)),
            (''sgid'', SStr (sgid sample_attrs)),
            (''url'', SStr (url sample_attrs)),
            (''src'', SStr (src sample_attrs))]) =
      concat [''{'', in_quotes ''caption'', '':'', in_quotes ''hi'', '','',
                 in_quotes ''contentType'', '':'', in_quotes ''image/png'', '','',
                 in_quotes ''content'', '':'', in_quotes [], '','',
                 in_quotes ''filename'', '':'', in_quotes ''a.b.JPG'', '','',
                 in_quotes ''filesize'', '':'', in_quotes [], '','',
                 in_quotes ''height'', '':8,'',
                 in_quotes ''width'', '':12,'',
                 in_quotes ''sgid'', '':'', in_quotes [], '','',
                 in_quotes ''url'', '':'', in_quotes ''/blobs/1'', '','',
                 in_quotes ''src'', '':'', in_quotes [], ''}'']"
    by code_simp
  have c: "contentType sample_attrs = ''image/png''" "content sample_attrs = []"
    "url sample_attrs = ''/blobs/1''" "width sample_attrs = DimNum 12"
    "height sample_attrs = DimNum 8"
    by (simp_all add: sample_attrs_def default_attrs_def)
  show ?thesis
    using renderHTML_emits [of sample_attrs]
    unfolding t e p b by (simp add: c d)
qed

text \<open>
  Claim C7 as worded has the embedded content markup emitted in place of the image. For
  a node with embedded content the serializer emits the caption element only.
\<close>

theorem renderHTML_content_counterexample:
  "figure_children (renderHTML (default_attrs\<lparr>content := ''<p>x</p>''\<rparr>))
     \<noteq> spec_figure_children (default_attrs\<lparr>content := ''<p>x</p>''\<rparr>)"
  by (simp add: figure_children_render spec_figure_children_def default_attrs_def)

text \<open>
  Claim C1, as the code has it. Parsing the serialized figure, with \<open>inner\<close> the markup
  of the caption element, gives back sgid, src, url, width, height, fileName, fileSize
  and content as they were. The content type comes back as it was when it is not
  empty, and as \<open>application/octet-stream\<close> when it is empty. The caption comes back as
  the markup of the caption element when that is not empty, and as the caption
  attribute otherwise. The previewable rule yields \<open>undefined\<close>: the blob has no such
  member. The figure carries no attribute named \<open>attachmentId\<close> or \<open>progress\<close>, so
  these two are not serialized at all.
\<close>

theorem parse_after_render:
  "parse_element (rendered_element (renderHTML a) inner) =
     Returns ((attrs_values a)
            \<lparr>p_caption := Some (SStr (if inner \<noteq> [] then inner else caption a)),
             p_contentType :=
               Some (SStr (if contentType a = [] then ''application/octet-stream''
                           else contentType a)),
             p_previewable := None\<rparr>)
   \<and> getAttribute (rendered_element (renderHTML a) inner) ''attachmentId'' = None
   \<and> getAttribute (rendered_element (renderHTML a) inner) ''progress'' = None"
proof (intro conjI)
  show "parse_element (rendered_element (renderHTML a) inner) =
     Returns ((attrs_values a)
            \<lparr>p_caption := Some (SStr (if inner \<noteq> [] then inner else caption a)),
             p_contentType :=
               Some (SStr (if contentType a = [] then ''application/octet-stream''
                           else contentType a)),
             p_previewable := None\<rparr>)"
    by (rule parse_rendered)
  show "getAttribute (rendered_element (renderHTML a) inner) ''attachmentId'' = None"
    by (simp add: rendered_getAttribute)
  show "getAttribute (rendered_element (renderHTML a) inner) ''progress'' = None"
    by (simp add: rendered_getAttribute)
qed

text \<open>
  The sample attribute set, serialized and parsed again.
\<close>

theorem parse_after_render_witness:
  "parse_element (rendered_element (renderHTML sample_attrs) ''hi'') =
     Returns \<lparr>p_caption = Some (SStr ''hi''), p_sgid = Some (SStr []), p_src = Some (SStr []),
          p_height = Some (SNum 8), p_width = Some (SNum 12),
          p_contentType = Some (SStr ''image/png''), p_fileName = Some (SStr ''a.b.JPG''),
          p_fileSize = Some (SStr []), p_content = Some (SStr []),
          p_url = Some (SStr ''/blobs/1''), p_previewable = None\<rparr>"
  using parse_after_render [of sample_attrs "''hi''"]
  by (simp add: sample_attrs_def default_attrs_def attrs_values_def)

text \<open>
  Claim C1 as worded has every listed field come back. An attribute set whose
  previewable flag is true comes back without the flag.
\<close>

theorem round_trip_counterexample:
  "parse_element (rendered_element (renderHTML (default_attrs\<lparr>previewable := True\<rparr>)) [])
     = Returns ((attrs_values (default_attrs\<lparr>previewable := True\<rparr>))
                  \<lparr>p_contentType := Some (SStr ''application/octet-stream''),
                   p_previewable := None\<rparr>)
   \<and> parse_element (rendered_element (renderHTML (default_attrs\<lparr>previewable := True\<rparr>)) [])
     \<noteq> Returns (attrs_values (default_attrs\<lparr>previewable := True\<rparr>))
   \<and> p_previewable (attrs_values (default_attrs\<lparr>previewable := True\<rparr>)) = Some (SBool True)"
  by (simp add: parse_rendered attrs_values_def default_attrs_def)




text \<open>Where the helper finds nothing and the metadata attribute is missing or empty, the
  content type rule parses the empty text and raises, while the previewable rule parses
  \<^verbatim>\<open>{}\<close> and does not.\<close>

lemma contentType_missing_metadata:
  "\<not> truthy v \<Longrightarrow> contentType_parseHTML (Returns v) None = Raises SyntaxError"
  "\<not> truthy v \<Longrightarrow> contentType_parseHTML (Returns v) (Some []) = Raises SyntaxError"
  by (simp_all add: contentType_parseHTML_def parsed_prop_def JSON_parse_empty)

lemma previewable_missing_metadata: "parse_previewable bare_element = Returns None"
  by (simp add: parse_previewable_def blob_or_def bare_element_def getAttribute_def
      JSON_parse_empty_object parsed_prop_def get_prop_def)

section \<open>The frame of the dimension writeback\<close>

lemma fragmentSize_Cons: "fragmentSize (c # cs) = nodeSize c + fragmentSize cs"
  by (simp add: fragmentSize_def)

lemma setNodeMarkup_size:
  "setNodeMarkup cs pos a = Inr cs' \<Longrightarrow> fragmentSize cs' = fragmentSize cs"
proof (induction cs pos a arbitrary: cs' rule: setNodeMarkup.induct)
  case (1 pos a)
  then show ?case by simp
next
  case (2 s cs pos a)
  from "2.prems" have np: "\<not> pos < length s" by (simp split: if_splits)
  with "2.prems" obtain r where r: "setNodeMarkup cs (pos - length s) a = Inr r" "cs' = Text s # r"
    by (cases "setNodeMarkup cs (pos - length s) a") auto
  from "2.IH" [OF np r(1)] r(2) show ?case by (simp add: fragmentSize_Cons)
next
  case (3 t cs pos a)
  show ?case
  proof (cases "pos = 0")
    case True
    with "3.prems" show ?thesis by simp
  next
    case False
    with "3.prems" obtain r where r: "setNodeMarkup cs (pos - 1) a = Inr r" "cs' = Leaf t # r"
      by (cases "setNodeMarkup cs (pos - 1) a") auto
    from "3.IH" [OF False r(1)] r(2) show ?thesis by (simp add: fragmentSize_Cons)
  qed
next
  case (4 t b kids cs pos a)
  show ?case
  proof (cases "pos = 0")
    case True
    with "4.prems" show ?thesis by (auto simp: fragmentSize_Cons)
  next
    case nz: False
    show ?thesis
    proof (cases "pos < nodeSize (Node t b kids)")
      case True
      with nz "4.prems" obtain r where r: "setNodeMarkup kids (pos - 1) a = Inr r"
        "cs' = Node t b r # cs"
        by (cases "setNodeMarkup kids (pos - 1) a") auto
      from "4.IH"(1) [OF nz True r(1)] r(2) show ?thesis
        by (simp add: fragmentSize_Cons) (simp add: fragmentSize_def)
    next
      case False
      with nz "4.prems" obtain r where
        r: "setNodeMarkup cs (pos - nodeSize (Node t b kids)) a = Inr r" "cs' = Node t b kids # r"
        by (cases "setNodeMarkup cs (pos - nodeSize (Node t b kids)) a") auto
      from "4.IH"(2) [OF nz False r(1)] r(2) show ?thesis by (simp add: fragmentSize_Cons)
    qed
  qed
qed

lemma labels_lower: "(p, l) \<in> set (labels start cs) \<Longrightarrow> start \<le> p"
  by (induction start cs rule: labels.induct) auto

lemma labels_upper:
  "(p, NodeLabel t b) \<in> set (labels start cs) \<Longrightarrow> p < start + fragmentSize cs"
proof (induction start cs rule: labels.induct)
  case (1 start)
  then show ?case by simp
next
  case (2 start s cs)
  then show ?case by (auto simp: fragmentSize_Cons)
next
  case (3 start t' cs)
  then show ?case by (auto simp: fragmentSize_Cons)
next
  case (4 start t' b' kids cs)
  from "4.prems" consider "p = start" | "(p, NodeLabel t b) \<in> set (labels (start + 1) kids)"
    | "(p, NodeLabel t b) \<in> set (labels (start + nodeSize (Node t' b' kids)) cs)"
    by auto
  then show ?case
  proof cases
    case 1
    then show ?thesis by (simp add: fragmentSize_Cons)
  next
    case 2
    from "4.IH"(1) [OF this] show ?thesis by (simp add: fragmentSize_Cons) (simp add: fragmentSize_def)
  next
    case 3
    from "4.IH"(2) [OF this] show ?thesis by (simp add: fragmentSize_Cons)
  qed
qed

lemma relabel_other:
  assumes "\<And>p t b. (p, NodeLabel t b) \<in> set xs \<Longrightarrow> p \<noteq> q"
  shows "map (relabel q a) xs = xs"
proof -
  have "relabel q a x = x" if "x \<in> set xs" for x
  proof (cases x)
    case (Pair p l)
    show ?thesis
    proof (cases l)
      case (TextLabel s)
      with Pair show ?thesis by simp
    next
      case (NodeLabel t b)
      with Pair that assms [of p t b] show ?thesis by simp
    qed
  qed
  then show ?thesis by (simp add: map_idI)
qed

lemma relabel_after: "q < start \<Longrightarrow> map (relabel q a) (labels start cs) = labels start cs"
  by (rule relabel_other) (auto dest: labels_lower)

lemma relabel_before:
  "start + fragmentSize cs \<le> q \<Longrightarrow> map (relabel q a) (labels start cs) = labels start cs"
  by (rule relabel_other) (auto dest: labels_upper)

lemma setNodeMarkup_labels:
  "setNodeMarkup cs pos a = Inr cs' \<Longrightarrow>
   labels start cs' = map (relabel (start + pos) a) (labels start cs)"
proof (induction cs pos a arbitrary: cs' start rule: setNodeMarkup.induct)
  case (1 pos a)
  then show ?case by simp
next
  case (2 s cs pos a)
  from "2.prems" have np: "\<not> pos < length s" by (simp split: if_splits)
  with "2.prems" obtain r where r: "setNodeMarkup cs (pos - length s) a = Inr r" "cs' = Text s # r"
    by (cases "setNodeMarkup cs (pos - length s) a") auto
  from np have "start + length s + (pos - length s) = start + pos" by simp
  with "2.IH" [OF np r(1), of "start + length s"] r(2) show ?case by simp
next
  case (3 t cs pos a)
  show ?case
  proof (cases "pos = 0")
    case True
    with "3.prems" have "cs' = Leaf t # cs" by simp
    with True relabel_after [of start "Suc start" a cs] show ?thesis by simp
  next
    case False
    with "3.prems" obtain r where r: "setNodeMarkup cs (pos - 1) a = Inr r" "cs' = Leaf t # r"
      by (cases "setNodeMarkup cs (pos - 1) a") auto
    from False have "Suc start + (pos - 1) = start + pos" by simp
    with "3.IH" [OF False r(1), of "Suc start"] r(2) False show ?thesis by simp
  qed
next
  case (4 t b kids cs pos a)
  define n where "n = nodeSize (Node t b kids)"
  have lab: "labels start (Node t b ks # xs) =
      (start, NodeLabel t b') # labels (Suc start) ks @ labels (start + n) xs"
    if "nodeSize (Node t b ks) = n" "b' = b" for ks xs b'
    using that by (simp add: n_def)
  have n2: "Suc (fragmentSize kids) < n" by (simp add: n_def fragmentSize_def)
  show ?case
  proof (cases "pos = 0")
    case True
    with "4.prems" have c: "cs' = Node t (retag b a) kids # cs" by simp
    have "labels start cs' =
        (start, NodeLabel t (retag b a)) # labels (Suc start) kids @ labels (start + n) cs"
      unfolding c by (simp add: n_def)
    moreover have "map (relabel start a) (labels (Suc start) kids) = labels (Suc start) kids"
      by (rule relabel_after) simp
    moreover have "map (relabel start a) (labels (start + n) cs) = labels (start + n) cs"
      using n2 by (intro relabel_after) simp
    ultimately show ?thesis using True by (simp add: n_def [symmetric] del: nodeSize.simps)
  next
    case nz: False
    show ?thesis
    proof (cases "pos < n")
      case True
      then have lt: "pos < nodeSize (Node t b kids)" by (simp add: n_def)
      with nz "4.prems" obtain r where r: "setNodeMarkup kids (pos - 1) a = Inr r"
        "cs' = Node t b r # cs"
        by (cases "setNodeMarkup kids (pos - 1) a") auto
      from setNodeMarkup_size [OF r(1)] have sz: "nodeSize (Node t b r) = n"
        by (simp add: fragmentSize_def n_def)
      from nz have e: "Suc start + (pos - 1) = start + pos" by simp
      have tl: "map (relabel (start + pos) a) (labels (start + n) cs) = labels (start + n) cs"
        using True by (intro relabel_after) simp
      have ih: "labels (Suc start) r = map (relabel (start + pos) a) (labels (Suc start) kids)"
        using "4.IH"(1) [OF nz lt r(1), of "Suc start"] unfolding e .
      have "labels start cs' = (start, NodeLabel t b) # labels (Suc start) r @ labels (start + n) cs"
        unfolding r(2) by (rule lab [OF sz refl])
      also have "\<dots> = map (relabel (start + pos) a)
           ((start, NodeLabel t b) # labels (Suc start) kids @ labels (start + n) cs)"
        using nz by (simp add: ih tl)
      also have "\<dots> = map (relabel (start + pos) a) (labels start (Node t b kids # cs))"
        by (simp add: n_def del: nodeSize.simps)
      finally show ?thesis .
    next
      case False
      then have ge: "\<not> pos < nodeSize (Node t b kids)" by (simp add: n_def)
      with nz "4.prems" obtain r where
        r: "setNodeMarkup cs (pos - nodeSize (Node t b kids)) a = Inr r" "cs' = Node t b kids # r"
        by (cases "setNodeMarkup cs (pos - nodeSize (Node t b kids)) a") auto
      from False have e: "start + n + (pos - nodeSize (Node t b kids)) = start + pos"
        by (simp add: n_def)
      from False n2 have "Suc start + fragmentSize kids \<le> start + pos" by simp
      then have ks: "map (relabel (start + pos) a) (labels (Suc start) kids) = labels (Suc start) kids"
        by (rule relabel_before)
      have ih: "labels (start + n) r = map (relabel (start + pos) a) (labels (start + n) cs)"
        using "4.IH"(2) [OF nz ge r(1), of "start + n"] unfolding e .
      have "labels start cs' = (start, NodeLabel t b) # labels (Suc start) kids @ labels (start + n) r"
        unfolding r(2) by (rule lab) (simp_all add: n_def)
      also have "\<dots> = map (relabel (start + pos) a)
           ((start, NodeLabel t b) # labels (Suc start) kids @ labels (start + n) cs)"
        using nz by (simp add: ih ks)
      also have "\<dots> = map (relabel (start + pos) a) (labels start (Node t b kids # cs))"
        by (simp add: n_def del: nodeSize.simps)
      finally show ?thesis .
    qed
  qed
qed

lemma relabel_target:
  "(p, NodeLabel t (FigureAttrs a0)) \<in> set xs \<Longrightarrow>
   (p, NodeLabel t (FigureAttrs a)) \<in> set (map (relabel p a) xs)"
proof -
  assume "(p, NodeLabel t (FigureAttrs a0)) \<in> set xs"
  then have "relabel p a (p, NodeLabel t (FigureAttrs a0)) \<in> relabel p a ` set xs" by (rule imageI)
  then show ?thesis by simp
qed

text \<open>
  Claim C8. When the load handler is registered and \<open>getPos\<close> is a function, the
  handler makes exactly one request: \<open>setNodeMarkup\<close> at the position of the view with
  the attributes of the view's node in which width and height are the natural
  dimensions and every other attribute is what it was. When the request applies, the
  node at that position carries these attributes afterwards and every other node of
  the document, with its position, type, attributes and text, is what it was before.
  The click handler only asks for a selection move; the view has no other handler.
\<close>

theorem dimension_writeback:
  assumes "onload_registered v" "getPos v = Some p"
    and "a' = (view_attrs v)\<lparr>height := DimNum naturalHeight, width := DimNum naturalWidth\<rparr>"
    and "setNodeMarkup cs p a' = Inr cs'"
  shows "on_load v naturalWidth naturalHeight = [SetNodeMarkup p a']
    \<and> width a' = DimNum naturalWidth \<and> height a' = DimNum naturalHeight
    \<and> attachmentId a' = attachmentId (view_attrs v) \<and> caption a' = caption (view_attrs v)
    \<and> progress a' = progress (view_attrs v) \<and> sgid a' = sgid (view_attrs v)
    \<and> src a' = src (view_attrs v) \<and> contentType a' = contentType (view_attrs v)
    \<and> fileName a' = fileName (view_attrs v) \<and> fileSize a' = fileSize (view_attrs v)
    \<and> content a' = content (view_attrs v) \<and> url a' = url (view_attrs v)
    \<and> previewable a' = previewable (view_attrs v)
    \<and> apply_op (SetNodeMarkup p a') (Node t b cs) = Inr (Node t b cs')
    \<and> labels 0 cs' = map (relabel p a') (labels 0 cs)
    \<and> ((p, NodeLabel t' (FigureAttrs a0)) \<in> set (labels 0 cs)
         \<longrightarrow> (p, NodeLabel t' (FigureAttrs a')) \<in> set (labels 0 cs'))
    \<and> (\<forall>op \<in> set (on_click v in_caption). \<exists>q. op = SetTextSelection q)"
proof -
  have l: "labels 0 cs' = map (relabel p a') (labels 0 cs)"
    using setNodeMarkup_labels [OF assms(4), of 0] by simp
  have c: "\<forall>op \<in> set (on_click v in_caption). \<exists>q. op = SetTextSelection q"
    by (simp add: on_click_def assms(2))
  have tgt: "(p, NodeLabel t' (FigureAttrs a0)) \<in> set (labels 0 cs)
         \<longrightarrow> (p, NodeLabel t' (FigureAttrs a')) \<in> set (labels 0 cs')"
    unfolding l by (intro impI relabel_target)
  have ol: "on_load v naturalWidth naturalHeight = [SetNodeMarkup p a']"
    by (simp add: on_load_def assms(1,2,3))
  have ap: "apply_op (SetNodeMarkup p a') (Node t b cs) = Inr (Node t b cs')"
    by (simp add: assms(4))
  have fields: "width a' = DimNum naturalWidth \<and> height a' = DimNum naturalHeight
    \<and> attachmentId a' = attachmentId (view_attrs v) \<and> caption a' = caption (view_attrs v)
    \<and> progress a' = progress (view_attrs v) \<and> sgid a' = sgid (view_attrs v)
    \<and> src a' = src (view_attrs v) \<and> contentType a' = contentType (view_attrs v)
    \<and> fileName a' = fileName (view_attrs v) \<and> fileSize a' = fileSize (view_attrs v)
    \<and> content a' = content (view_attrs v) \<and> url a' = url (view_attrs v)
    \<and> previewable a' = previewable (view_attrs v)"
    by (simp add: assms(3))
  from ol fields ap l tgt c show ?thesis by blast
qed

text \<open>
  The writeback for an image of 640 by 480 whose figure is the first of two in a
  gallery: the first figure takes the dimensions, the second figure and the gallery
  stay.
\<close>

theorem dimension_writeback_witness:
  "on_load image_view 640 480 =
     [SetNodeMarkup 1 (image_attrs\<lparr>height := DimNum 480, width := DimNum 640\<rparr>)]
   \<and> setNodeMarkup image_doc 1 (image_attrs\<lparr>height := DimNum 480, width := DimNum 640\<rparr>) =
       Inr [create_gallery
              [create_figure (image_attrs\<lparr>height := DimNum 480, width := DimNum 640\<rparr>),
               create_figure default_attrs]]
   \<and> labels 0 [create_gallery
              [create_figure (image_attrs\<lparr>height := DimNum 480, width := DimNum 640\<rparr>),
               create_figure default_attrs]] =
       map (relabel 1 (image_attrs\<lparr>height := DimNum 480, width := DimNum 640\<rparr>))
         (labels 0 image_doc)"
proof -
  let ?a = "image_attrs\<lparr>height := DimNum 480, width := DimNum 640\<rparr>"
  have r: "onload_registered image_view"
    by (simp add: onload_registered_def image_view_def image_attrs_def default_attrs_def
        canPreview_def match_anchored_None previewable_match)
  have g: "getPos image_view = Some 1" by (simp add: image_view_def)
  have a: "?a = (view_attrs image_view)\<lparr>height := DimNum 480, width := DimNum 640\<rparr>"
    by (simp add: image_view_def)
  have s: "setNodeMarkup image_doc 1 ?a =
       Inr [create_gallery [create_figure ?a, create_figure default_attrs]]"
    by (simp add: image_doc_def create_gallery_def create_figure_def image_attrs_def
        default_attrs_def)
  show ?thesis
    using dimension_writeback [OF r g a s] s by simp
qed

end
